theory Spec2Isabelle
  imports Main "HOL-Library.Word"
begin

unbundle bit_operations_syntax

section \<open>The TI AM3 DPLL clock driver (drivers/clk/ti/clk-am3-dpll.c)\<close>

text \<open>
  The driver serves the DPLLs of the AM33xx family, a 32-bit ARM (Cortex-A8)
  system-on-chip: its compatible strings are \<^verbatim>\<open>ti,am3-dpll-*\<close>, it includes
  \<^verbatim>\<open>asm/arch/clock.h\<close> and \<^verbatim>\<open>asm/arch/sys_proto.h\<close>, polls with the
  platform's \<^verbatim>\<open>wait_on_value\<close>, prints its register addresses with \<^verbatim>\<open>%08lx\<close> and
  divides its one 64-bit value with \<^verbatim>\<open>do_div\<close>. Its C types are therefore those
  of the ILP32 data model: \<^verbatim>\<open>int\<close>, \<^verbatim>\<open>long\<close>, \<^verbatim>\<open>ulong\<close>, \<^verbatim>\<open>u32\<close> and
  \<^verbatim>\<open>fdt_addr_t\<close> have 32 bits, \<^verbatim>\<open>u64\<close> has 64, \<^verbatim>\<open>u16\<close> 16 and \<^verbatim>\<open>u8\<close> 8.
  Unsigned arithmetic wraps around; a C \<^verbatim>\<open>int\<close> is a 32-bit word read in two's
  complement (\<open>sint\<close>, \<open><s\<close>).
\<close>

type_synonym ulong = "32 word"
type_synonym cint = "32 word"
type_synonym u8 = "8 word"
type_synonym u16 = "16 word"
type_synonym u32 = "32 word"
type_synonym u64 = "64 word"
type_synonym fdt_addr_t = "32 word"

text \<open>
  A \<^verbatim>\<open>struct clk\<close> is a handle of the clock framework; only its identity matters
  here. \<^verbatim>\<open>clk_get_rate\<close>, the rate of a parent clock, is a parameter of the
  functions that call it.
\<close>

type_synonym clk = nat

subsection \<open>Constants and macros of headers outside the driver\<close>

text \<open>
  The driver takes \<^verbatim>\<open>INT_MAX\<close>, \<^verbatim>\<open>EFAULT\<close>, \<^verbatim>\<open>IS_ERR_VALUE\<close> (with \<^verbatim>\<open>MAX_ERRNO\<close>)
  and \<^verbatim>\<open>abs\<close> from \<^verbatim>\<open>limits.h\<close>, \<^verbatim>\<open>errno.h\<close>, \<^verbatim>\<open>linux/err.h\<close> and
  \<^verbatim>\<open>linux/kernel.h\<close>, which are not part of it. They are given the meaning they
  have in U-Boot on the 32-bit target.
\<close>

text \<open>
  Modelled from the spec: the out-of-range value that multiplier and divider
  start with (section 4.1), \<^verbatim>\<open>INT_MAX\<close> of \<^verbatim>\<open>limits.h\<close>.
\<close>

definition INT_MAX :: int where
  "INT_MAX = 2147483647"

text \<open>
  Modelled from the spec: the error number of the "no solution" sentinel
  (section 4.1), \<^verbatim>\<open>EFAULT\<close> of \<^verbatim>\<open>errno.h\<close>; the sentinel is \<^verbatim>\<open>-EFAULT\<close>
  converted to \<^verbatim>\<open>ulong\<close>.
\<close>

definition EFAULT :: ulong where
  "EFAULT = 14"

text \<open>
  Modelled from the spec: the failure values that \<^verbatim>\<open>set_rate\<close> propagates
  (section 4.2, step 1), told by \<^verbatim>\<open>IS_ERR_VALUE\<close> of \<^verbatim>\<open>linux/err.h\<close>: the
  topmost \<^verbatim>\<open>MAX_ERRNO\<close> values of \<^verbatim>\<open>ulong\<close>.
\<close>

definition MAX_ERRNO :: ulong where
  "MAX_ERRNO = 4095"

text \<open>Modelled from the spec: the test for a failure value, see \<^verbatim>\<open>MAX_ERRNO\<close>.\<close>

definition IS_ERR_VALUE :: "ulong \<Rightarrow> bool" where
  "IS_ERR_VALUE x = (- MAX_ERRNO \<le> x)"

text \<open>
  Modelled from the spec: the error \<open>|r - targetRate|\<close> of a candidate (section
  4.1), as the macro \<^verbatim>\<open>abs\<close> of \<^verbatim>\<open>linux/kernel.h\<close> computes it: an argument of
  the size of \<^verbatim>\<open>long\<close> is read as a signed \<^verbatim>\<open>long\<close> and negated when
  negative. Negating the least \<^verbatim>\<open>long\<close> wraps around to itself.
\<close>

definition abs_c :: "ulong \<Rightarrow> cint" where
  "abs_c x = (if x <s 0 then - x else x)"

text \<open>
  The register layout of \<^verbatim>\<open>asm/arch/clock.h\<close> is not part of the driver: its
  masks, shifts, mode encodings and the poll bound \<^verbatim>\<open>LDELAY\<close> are parameters
  of the model.
\<close>

record clock_h =
  CM_CLKMODE_DPLL_DPLL_EN_MASK :: u32
  CM_CLKMODE_DPLL_EN_MASK :: u32
  CM_CLKMODE_DPLL_EN_SHIFT :: nat
  DPLL_EN_MN_BYPASS :: u32
  DPLL_EN_LOW_POWER_BYPASS :: u32
  DPLL_EN_FAST_RELOCK_BYPASS :: u32
  DPLL_EN_LOCK :: u32
  ST_DPLL_CLK_MASK :: u32
  CM_CLKSEL_DPLL_M_MASK :: u32
  CM_CLKSEL_DPLL_M_SHIFT :: nat
  CM_CLKSEL_DPLL_N_MASK :: u32
  CM_CLKSEL_DPLL_N_SHIFT :: nat
  LDELAY :: u32

subsection \<open>Driver data\<close>

record clk_ti_am3_dpll_priv =
  clkmode_reg :: fdt_addr_t
  idlest_reg :: fdt_addr_t
  clksel_reg :: fdt_addr_t
  clk_bypass :: clk
  clk_ref :: clk
  last_rounded_mult :: u16
  last_rounded_div :: u8
  max_rate :: ulong

subsection \<open>The machine: registers, bus accesses, console\<close>

datatype bus_op =
  Readl fdt_addr_t
| Writel u32 fdt_addr_t
| Clrsetbits_le32 fdt_addr_t u32 u32
| Wait_on_value u32 u32 fdt_addr_t u32

datatype diag =
  Warn_rate_too_high ulong ulong
| Err_failed_bypassing
| Err_failed_locking

text \<open>
  The state outside the driver data: the contents of the memory-mapped
  registers, the accesses made to them so far, and the messages printed so far.
\<close>

record machine =
  regs :: "fdt_addr_t \<Rightarrow> u32"
  bus :: "bus_op list"
  console :: "diag list"

text \<open>
  Modelled from the spec: \<open>readRegister(addr)\<close> of the register-access layer
  (section 6), \<^verbatim>\<open>readl\<close> of \<^verbatim>\<open>asm/io.h\<close>.
\<close>

definition readl :: "fdt_addr_t \<Rightarrow> machine \<Rightarrow> u32 \<times> machine" where
  "readl a s = (regs s a, s\<lparr>bus := bus s @ [Readl a]\<rparr>)"

text \<open>
  Modelled from the spec: \<open>writeRegister(addr, value)\<close> of the register-access
  layer (section 6), \<^verbatim>\<open>writel\<close> of \<^verbatim>\<open>asm/io.h\<close>.
\<close>

definition writel :: "u32 \<Rightarrow> fdt_addr_t \<Rightarrow> machine \<Rightarrow> machine" where
  "writel v a s = s\<lparr>regs := (regs s)(a := v), bus := bus s @ [Writel v a]\<rparr>"

text \<open>
  Modelled from the spec: \<open>modifyRegisterBits(addr, clearMask, setMask)\<close> of
  the register-access layer (section 6), \<^verbatim>\<open>clrsetbits_le32\<close> of \<^verbatim>\<open>asm/io.h\<close>:
  one read and one write of the register.
\<close>

definition clrsetbits_le32 :: "fdt_addr_t \<Rightarrow> u32 \<Rightarrow> u32 \<Rightarrow> machine \<Rightarrow> machine" where
  "clrsetbits_le32 a clr st s =
     s\<lparr>regs := (regs s)(a := (regs s a AND NOT clr) OR st),
       bus := bus s @ [Clrsetbits_le32 a clr st]\<rparr>"

text \<open>
  Modelled from the spec: the warning-level observation of the clamp (section
  4.1), \<^verbatim>\<open>dev_warn\<close>. \<^verbatim>\<open>dev_dbg\<close> prints in debug builds only and is left
  out.
\<close>

definition dev_warn :: "diag \<Rightarrow> machine \<Rightarrow> machine" where
  "dev_warn d s = s\<lparr>console := console s @ [d]\<rparr>"

text \<open>
  Modelled from the spec: the error observations of the two polls (section 4.2,
  steps 4 and 7), \<^verbatim>\<open>dev_err\<close>.
\<close>

definition dev_err :: "diag \<Rightarrow> machine \<Rightarrow> machine" where
  "dev_err d s = s\<lparr>console := console s @ [d]\<rparr>"

text \<open>
  What the hardware shows to the two polls of \<^verbatim>\<open>set_rate\<close>: whether the
  "not locked" condition appears in time, and whether the "locked" condition
  does. The status register changes on its own, so both are inputs of the model.
\<close>

record hw_response =
  bypass_seen :: bool
  lock_seen :: bool

text \<open>
  Modelled from the spec: \<open>pollRegisterUntil(addr, mask, expectedMaskedValue,
  timeout) -> bool\<close> of the register-access layer (section 6), \<^verbatim>\<open>wait_on_value\<close>
  of the platform code. The call is recorded on the bus with its arguments; its
  result is the answer of the hardware.
\<close>

definition wait_on_value ::
  "bool \<Rightarrow> u32 \<Rightarrow> u32 \<Rightarrow> fdt_addr_t \<Rightarrow> u32 \<Rightarrow> machine \<Rightarrow> bool \<times> machine" where
  "wait_on_value answer read_bit_mask match_value read_addr bound s =
     (answer, s\<lparr>bus := bus s @ [Wait_on_value read_bit_mask match_value read_addr bound]\<rparr>)"

text \<open>
  Modelled from the spec: the fatal halt of section 4.2, step 7, \<^verbatim>\<open>hang()\<close> of
  \<^verbatim>\<open>hang.h\<close>, never returns. A call of \<^verbatim>\<open>set_rate\<close> either returns a value or
  hangs.
\<close>

datatype outcome = Returned ulong | Hung

subsection \<open>\<^verbatim>\<open>clk_ti_am3_dpll_round_rate\<close>\<close>

text \<open>The locals that the two loops update.\<close>

record scan =
  err_min :: cint
  ret :: ulong
  mult :: int
  div_c :: int

text \<open>
  The inner loop \<^verbatim>\<open>for (m = 2; m <= 2047; m++)\<close>, entered at \<open>m\<close>. The product
  \<^verbatim>\<open>ref_rate * m\<close> and the quotient are \<^verbatim>\<open>ulong\<close> operations.
\<close>

function m_loop :: "ulong \<Rightarrow> ulong \<Rightarrow> int \<Rightarrow> int \<Rightarrow> scan \<Rightarrow> scan" where
  "m_loop ref_rate rate d m s =
     (if m \<le> 2047 then
        let r = (ref_rate * word_of_int m) div word_of_int d;
            err = abs_c (r - rate)
        in if err <s err_min s then
             let s' = s\<lparr>err_min := err, ret := r, mult := m, div_c := d\<rparr>
             in if err = 0 then s' else m_loop ref_rate rate d (m + 1) s'
           else if rate < r then s
           else m_loop ref_rate rate d (m + 1) s
      else s)"
  by pat_completeness auto
termination
  by (relation "measure (\<lambda>(ref_rate, rate, d, m, s). nat (2048 - m))") auto

declare m_loop.simps [simp del]

text \<open>The outer loop \<^verbatim>\<open>for (d = 1; err_min && d <= 128; d++)\<close>, entered at \<open>d\<close>.\<close>

function d_loop :: "ulong \<Rightarrow> ulong \<Rightarrow> int \<Rightarrow> scan \<Rightarrow> scan" where
  "d_loop ref_rate rate d s =
     (if err_min s \<noteq> 0 \<and> d \<le> 128 then
        d_loop ref_rate rate (d + 1) (m_loop ref_rate rate d 2 s)
      else s)"
  by pat_completeness auto
termination
  by (relation "measure (\<lambda>(ref_rate, rate, d, s). nat (129 - d))") auto

declare d_loop.simps [simp del]

definition scan_init :: "ulong \<Rightarrow> scan" where
  "scan_init rate = \<lparr>err_min = rate, ret = - EFAULT, mult = INT_MAX, div_c = INT_MAX\<rparr>"

definition clk_ti_am3_dpll_round_rate ::
  "(clk \<Rightarrow> ulong) \<Rightarrow> clk_ti_am3_dpll_priv \<Rightarrow> ulong \<Rightarrow> machine
     \<Rightarrow> ulong \<times> clk_ti_am3_dpll_priv \<times> machine" where
  "clk_ti_am3_dpll_round_rate clk_get_rate priv rate0 s0 =
     (let (rate, s1) =
            (if max_rate priv \<noteq> 0 \<and> max_rate priv < rate0
             then (max_rate priv, dev_warn (Warn_rate_too_high rate0 (max_rate priv)) s0)
             else (rate0, s0));
          ref_rate = clk_get_rate (clk_ref priv);
          f = d_loop ref_rate rate 1 (scan_init rate)
      in (ret f,
          priv\<lparr>last_rounded_mult := word_of_int (mult f),
               last_rounded_div := word_of_int (div_c f)\<rparr>,
          s1))"

subsection \<open>\<^verbatim>\<open>clk_ti_am3_dpll_set_rate\<close>\<close>

text \<open>
  The block \<^verbatim>\<open>/* set M & N */\<close>: four assignments to \<open>v\<close>.
  \<^verbatim>\<open>last_rounded_mult\<close> and \<^verbatim>\<open>last_rounded_div\<close> are promoted to \<^verbatim>\<open>int\<close>
  before they are shifted; the result is stored into the \<^verbatim>\<open>u32\<close> \<open>v\<close>.
\<close>

definition set_M_N :: "clock_h \<Rightarrow> u32 \<Rightarrow> clk_ti_am3_dpll_priv \<Rightarrow> u32" where
  "set_M_N H v0 priv =
     (let v1 = v0 AND NOT (CM_CLKSEL_DPLL_M_MASK H);
          v2 = v1 OR (push_bit (CM_CLKSEL_DPLL_M_SHIFT H) (ucast (last_rounded_mult priv))
                        AND CM_CLKSEL_DPLL_M_MASK H);
          v3 = v2 AND NOT (CM_CLKSEL_DPLL_N_MASK H);
          v4 = v3 OR (push_bit (CM_CLKSEL_DPLL_N_SHIFT H) (ucast (last_rounded_div priv) - 1)
                        AND CM_CLKSEL_DPLL_N_MASK H)
      in v4)"

definition clk_ti_am3_dpll_set_rate ::
  "clock_h \<Rightarrow> (clk \<Rightarrow> ulong) \<Rightarrow> hw_response \<Rightarrow> clk_ti_am3_dpll_priv \<Rightarrow> ulong \<Rightarrow> machine
     \<Rightarrow> outcome \<times> clk_ti_am3_dpll_priv \<times> machine" where
  "clk_ti_am3_dpll_set_rate H clk_get_rate hw priv0 rate s0 =
     (let (round_rate, priv, s1) = clk_ti_am3_dpll_round_rate clk_get_rate priv0 rate s0
      in if IS_ERR_VALUE round_rate then (Returned round_rate, priv, s1)
         else
           let (v0, s2) = readl (clksel_reg priv) s1;
               s3 = clrsetbits_le32 (clkmode_reg priv) (CM_CLKMODE_DPLL_DPLL_EN_MASK H)
                      (push_bit (CM_CLKMODE_DPLL_EN_SHIFT H) (DPLL_EN_MN_BYPASS H)) s2;
               (bypassed, s4) = wait_on_value (bypass_seen hw) (ST_DPLL_CLK_MASK H) 0
                      (idlest_reg priv) (LDELAY H) s3;
               s5 = (if \<not> bypassed then dev_err Err_failed_bypassing s4 else s4);
               v = set_M_N H v0 priv;
               s6 = writel v (clksel_reg priv) s5;
               s7 = clrsetbits_le32 (clkmode_reg priv) (CM_CLKMODE_DPLL_DPLL_EN_MASK H)
                      (push_bit (CM_CLKMODE_DPLL_EN_SHIFT H) (DPLL_EN_LOCK H)) s6;
               (locked, s8) = wait_on_value (lock_seen hw) (ST_DPLL_CLK_MASK H) (ST_DPLL_CLK_MASK H)
                      (idlest_reg priv) (LDELAY H) s7
           in if \<not> locked then (Hung, priv, dev_err Err_failed_locking s8)
              else (Returned round_rate, priv, s8))"

text \<open>The bus accesses of a run of \<^verbatim>\<open>set_rate\<close> that gets past the rate search, in order.\<close>

definition programming_sequence :: "clock_h \<Rightarrow> clk_ti_am3_dpll_priv \<Rightarrow> u32 \<Rightarrow> bus_op list" where
  "programming_sequence H priv v =
     [Readl (clksel_reg priv),
      Clrsetbits_le32 (clkmode_reg priv) (CM_CLKMODE_DPLL_DPLL_EN_MASK H)
        (push_bit (CM_CLKMODE_DPLL_EN_SHIFT H) (DPLL_EN_MN_BYPASS H)),
      Wait_on_value (ST_DPLL_CLK_MASK H) 0 (idlest_reg priv) (LDELAY H),
      Writel v (clksel_reg priv),
      Clrsetbits_le32 (clkmode_reg priv) (CM_CLKMODE_DPLL_DPLL_EN_MASK H)
        (push_bit (CM_CLKMODE_DPLL_EN_SHIFT H) (DPLL_EN_LOCK H)),
      Wait_on_value (ST_DPLL_CLK_MASK H) (ST_DPLL_CLK_MASK H) (idlest_reg priv) (LDELAY H)]"

subsection \<open>\<^verbatim>\<open>clk_ti_am3_dpll_get_rate\<close>\<close>

text \<open>
  Modelled from the spec: the truncating 64-bit division of section 4.3,
  \<^verbatim>\<open>do_div(n, base)\<close> of \<^verbatim>\<open>div64.h\<close>, which divides the \<^verbatim>\<open>u64\<close> \<open>n\<close> in place
  by the \<^verbatim>\<open>u32\<close> \<open>base\<close>. A zero \<open>base\<close> is a fault of the model.
\<close>

datatype fault = Division_by_zero

definition do_div :: "u64 \<Rightarrow> u32 \<Rightarrow> fault + u64" where
  "do_div n base = (if base = 0 then Inl Division_by_zero else Inr (n div ucast base))"

text \<open>
  In \<^verbatim>\<open>rate = clk_get_rate(&priv->clk_ref) * m\<close> both factors are 32 bits wide
  (\<^verbatim>\<open>ulong\<close> and \<^verbatim>\<open>u32\<close>): C multiplies them as \<^verbatim>\<open>ulong\<close> and only then widens
  the product to the \<^verbatim>\<open>u64\<close> \<open>rate\<close>. The function returns \<^verbatim>\<open>ulong\<close>, so the
  quotient is narrowed again.
\<close>

definition clk_ti_am3_dpll_get_rate ::
  "clock_h \<Rightarrow> (clk \<Rightarrow> ulong) \<Rightarrow> clk_ti_am3_dpll_priv \<Rightarrow> machine \<Rightarrow> (fault + ulong) \<times> machine" where
  "clk_ti_am3_dpll_get_rate H clk_get_rate priv s0 =
     (let (v0, s1) = readl (clkmode_reg priv) s0;
          v1 = v0 AND CM_CLKMODE_DPLL_EN_MASK H;
          v = drop_bit (CM_CLKMODE_DPLL_EN_SHIFT H) v1
      in if v = DPLL_EN_MN_BYPASS H \<or> v = DPLL_EN_LOW_POWER_BYPASS H
              \<or> v = DPLL_EN_FAST_RELOCK_BYPASS H then
           let rate = (ucast (clk_get_rate (clk_bypass priv)) :: u64)
           in (Inr (ucast rate), s1)
         else
           let (v, s2) = readl (clksel_reg priv) s1;
               m = drop_bit (CM_CLKSEL_DPLL_M_SHIFT H) (v AND CM_CLKSEL_DPLL_M_MASK H);
               n = drop_bit (CM_CLKSEL_DPLL_N_SHIFT H) (v AND CM_CLKSEL_DPLL_N_MASK H);
               rate = (ucast (clk_get_rate (clk_ref priv) * m) :: u64)
           in case do_div rate (n + 1) of
                Inl f \<Rightarrow> (Inl f, s2)
              | Inr rate' \<Rightarrow> (Inr (ucast rate'), s2))"

subsection \<open>Predicates of the statements\<close>

text \<open>The target that the search runs with, after the clamp to \<^verbatim>\<open>max_rate\<close>.\<close>

definition effective_rate :: "clk_ti_am3_dpll_priv \<Rightarrow> ulong \<Rightarrow> ulong" where
  "effective_rate priv rate =
     (if max_rate priv \<noteq> 0 \<and> max_rate priv < rate then max_rate priv else rate)"

definition search :: "(clk \<Rightarrow> ulong) \<Rightarrow> clk_ti_am3_dpll_priv \<Rightarrow> ulong \<Rightarrow> scan" where
  "search clk_get_rate priv rate =
     d_loop (clk_get_rate (clk_ref priv)) (effective_rate priv rate) 1
       (scan_init (effective_rate priv rate))"

text \<open>
  A scan state that records a candidate: the pair lies in the search space, the
  rate is the \<^verbatim>\<open>ulong\<close> quotient computed for it, and the error is the one
  computed for it, below the initial bound.
\<close>

definition chosen :: "ulong \<Rightarrow> ulong \<Rightarrow> scan \<Rightarrow> bool" where
  "chosen ref_rate rate s \<longleftrightarrow>
     2 \<le> mult s \<and> mult s \<le> 2047 \<and> 1 \<le> div_c s \<and> div_c s \<le> 128 \<and>
     ret s = (ref_rate * word_of_int (mult s)) div word_of_int (div_c s) \<and>
     err_min s = abs_c (ret s - rate) \<and> err_min s <s rate"

text \<open>
  The search in unbounded integers: the rate of a pair and its distance to the
  target, the pairs that the scan visits before it reaches \<open>(d, m)\<close>, and what it
  means that a scan state summarises them: its error is a lower bound of their
  distances, and its pair, if it has one, is the first of them at that distance.
\<close>

definition cand :: "int \<Rightarrow> int \<Rightarrow> int \<Rightarrow> int" where
  "cand R m d = (R * m) div d"

definition err_of :: "ulong \<Rightarrow> ulong \<Rightarrow> int \<Rightarrow> int \<Rightarrow> int" where
  "err_of ref_rate rate m d = \<bar>cand (uint ref_rate) m d - uint rate\<bar>"

definition before :: "int \<Rightarrow> int \<Rightarrow> int \<Rightarrow> int \<Rightarrow> bool" where
  "before d m d' m' \<longleftrightarrow>
     1 \<le> d' \<and> d' \<le> 128 \<and> 2 \<le> m' \<and> m' \<le> 2047 \<and> (d' < d \<or> (d' = d \<and> m' < m))"

definition lower_bound :: "ulong \<Rightarrow> ulong \<Rightarrow> int \<Rightarrow> int \<Rightarrow> scan \<Rightarrow> bool" where
  "lower_bound ref_rate rate d m s \<longleftrightarrow>
     0 \<le> sint (err_min s) \<and>
     (\<forall>d' m'. before d m d' m' \<longrightarrow> sint (err_min s) \<le> err_of ref_rate rate m' d')"

definition first_best :: "ulong \<Rightarrow> ulong \<Rightarrow> int \<Rightarrow> int \<Rightarrow> scan \<Rightarrow> bool" where
  "first_best ref_rate rate d m s \<longleftrightarrow>
     before d m (div_c s) (mult s) \<and>
     uint (ret s) = cand (uint ref_rate) (mult s) (div_c s) \<and>
     sint (err_min s) = err_of ref_rate rate (mult s) (div_c s) \<and>
     (\<forall>d' m'. before d m d' m' \<longrightarrow> err_of ref_rate rate m' d' = sint (err_min s) \<longrightarrow>
        div_c s < d' \<or> (div_c s = d' \<and> mult s \<le> m'))"

definition summarises :: "ulong \<Rightarrow> ulong \<Rightarrow> int \<Rightarrow> int \<Rightarrow> scan \<Rightarrow> bool" where
  "summarises ref_rate rate d m s \<longleftrightarrow>
     lower_bound ref_rate rate d m s \<and> (s = scan_init rate \<or> first_best ref_rate rate d m s)"

text \<open>The enable field of a value of the mode-control register, as \<^verbatim>\<open>get_rate\<close> decodes it.\<close>

definition en_field :: "clock_h \<Rightarrow> u32 \<Rightarrow> u32" where
  "en_field H v = drop_bit (CM_CLKMODE_DPLL_EN_SHIFT H) (v AND CM_CLKMODE_DPLL_EN_MASK H)"

text \<open>
  The select register has an 11-bit multiplier field (room for 2047) and a 7-bit
  divider field (room for 128 - 1), which do not overlap and lie below the sign
  bit of the \<^verbatim>\<open>int\<close> in which the shifts are computed.
\<close>

definition clksel_fields :: "clock_h \<Rightarrow> bool" where
  "clksel_fields H \<longleftrightarrow>
     CM_CLKSEL_DPLL_M_MASK H = push_bit (CM_CLKSEL_DPLL_M_SHIFT H) (mask 11) \<and>
     CM_CLKSEL_DPLL_M_SHIFT H + 11 \<le> 31 \<and>
     CM_CLKSEL_DPLL_N_MASK H = push_bit (CM_CLKSEL_DPLL_N_SHIFT H) (mask 7) \<and>
     CM_CLKSEL_DPLL_N_SHIFT H + 7 \<le> 31 \<and>
     CM_CLKSEL_DPLL_M_MASK H AND CM_CLKSEL_DPLL_N_MASK H = 0"

subsection \<open>Concrete inputs\<close>

text \<open>The AM33xx values of the register layout, and a node of a 1 GHz DPLL.\<close>

definition am33xx_clock_h :: clock_h where
  "am33xx_clock_h =
     \<lparr>CM_CLKMODE_DPLL_DPLL_EN_MASK = 0x7, CM_CLKMODE_DPLL_EN_MASK = 0x7,
      CM_CLKMODE_DPLL_EN_SHIFT = 0,
      DPLL_EN_MN_BYPASS = 4, DPLL_EN_LOW_POWER_BYPASS = 5, DPLL_EN_FAST_RELOCK_BYPASS = 6,
      DPLL_EN_LOCK = 7, ST_DPLL_CLK_MASK = 1,
      CM_CLKSEL_DPLL_M_MASK = 0x7FF00, CM_CLKSEL_DPLL_M_SHIFT = 8,
      CM_CLKSEL_DPLL_N_MASK = 0x7F, CM_CLKSEL_DPLL_N_SHIFT = 0,
      LDELAY = 1000000\<rparr>"

definition mpu_priv :: clk_ti_am3_dpll_priv where
  "mpu_priv =
     \<lparr>clkmode_reg = 0x44E00488, idlest_reg = 0x44E00420, clksel_reg = 0x44E0042C,
      clk_bypass = 1, clk_ref = 0, last_rounded_mult = 0, last_rounded_div = 0,
      max_rate = 1000000000\<rparr>"

text \<open>A 24 MHz reference (and bypass) clock.\<close>

definition osc_24mhz :: "clk \<Rightarrow> ulong" where
  "osc_24mhz c = 24000000"

definition idle_machine :: machine where
  "idle_machine = \<lparr>regs = (\<lambda>a. 0), bus = [], console = []\<rparr>"

text \<open>
  The DPLL locked with M = 1000 and N = 23 in the select register: the setting
  of a 1 GHz output from the 24 MHz reference.
\<close>

definition locked_1ghz :: machine where
  "locked_1ghz =
     \<lparr>regs = (\<lambda>a. if a = 0x44E00488 then 0x7 else if a = 0x44E0042C then 0x3E817 else 0),
      bus = [], console = []\<rparr>"

definition bypass_timeout :: hw_response where
  "bypass_timeout = \<lparr>bypass_seen = False, lock_seen = True\<rparr>"

definition lock_timeout :: hw_response where
  "lock_timeout = \<lparr>bypass_seen = True, lock_seen = False\<rparr>"

section \<open>Properties\<close>

subsection \<open>The scan\<close>

lemma sless_trans: "(a :: cint) <s b \<Longrightarrow> b <s c \<Longrightarrow> a <s c"
  by (simp add: word_sless_alt)

text \<open>Every step of the inner loop keeps the state initial or leaves a recorded candidate.\<close>

lemma m_loop_inv:
  "2 \<le> m \<Longrightarrow> 1 \<le> d \<Longrightarrow> d \<le> 128 \<Longrightarrow> s = scan_init rate \<or> chosen ref_rate rate s \<Longrightarrow>
     m_loop ref_rate rate d m s = scan_init rate \<or> chosen ref_rate rate (m_loop ref_rate rate d m s)"
proof (induction ref_rate rate d m s rule: m_loop.induct)
  case (1 ref_rate rate d m s)
  let ?r = "(ref_rate * word_of_int m) div word_of_int d"
  let ?err = "abs_c (?r - rate)"
  let ?s' = "s\<lparr>err_min := ?err, ret := ?r, mult := m, div_c := d\<rparr>"
  show ?case
  proof (cases "m \<le> 2047")
    case False
    then show ?thesis using "1.prems" by (subst (1 2) m_loop.simps) simp
  next
    case in_range: True
    show ?thesis
    proof (cases "?err <s err_min s")
      case better: True
      have "err_min s = rate \<or> err_min s <s rate"
        using "1.prems"(4) by (auto simp: scan_init_def chosen_def)
      then have "?err <s rate" using better sless_trans by blast
      then have ch: "chosen ref_rate rate ?s'"
        using in_range "1.prems" by (simp add: chosen_def)
      show ?thesis
      proof (cases "?err = 0")
        case True
        then show ?thesis using in_range better ch
          by (subst (1 2) m_loop.simps) (simp add: Let_def)
      next
        case False
        have "m_loop ref_rate rate d (m + 1) ?s' = scan_init rate
                \<or> chosen ref_rate rate (m_loop ref_rate rate d (m + 1) ?s')"
          using "1.IH"(1)[OF in_range refl refl better refl False] "1.prems" ch by simp
        then show ?thesis using in_range better False
          by (subst (1 2) m_loop.simps) (simp add: Let_def)
      qed
    next
      case worse: False
      show ?thesis
      proof (cases "rate < ?r")
        case True
        then show ?thesis using in_range worse "1.prems"(4)
          by (subst (1 2) m_loop.simps) (simp add: Let_def)
      next
        case False
        have "m_loop ref_rate rate d (m + 1) s = scan_init rate
                \<or> chosen ref_rate rate (m_loop ref_rate rate d (m + 1) s)"
          using "1.IH"(2)[OF in_range refl refl worse False] "1.prems" by simp
        then show ?thesis using in_range worse False
          by (subst (1 2) m_loop.simps) (simp add: Let_def)
      qed
    qed
  qed
qed

lemma d_loop_inv:
  "1 \<le> d \<Longrightarrow> s = scan_init rate \<or> chosen ref_rate rate s \<Longrightarrow>
     d_loop ref_rate rate d s = scan_init rate \<or> chosen ref_rate rate (d_loop ref_rate rate d s)"
proof (induction ref_rate rate d s rule: d_loop.induct)
  case (1 ref_rate rate d s)
  show ?case
  proof (cases "err_min s \<noteq> 0 \<and> d \<le> 128")
    case True
    have "m_loop ref_rate rate d 2 s = scan_init rate
            \<or> chosen ref_rate rate (m_loop ref_rate rate d 2 s)"
      using m_loop_inv[of 2 d s rate ref_rate] True "1.prems" by simp
    then have "d_loop ref_rate rate (d + 1) (m_loop ref_rate rate d 2 s) = scan_init rate
       \<or> chosen ref_rate rate (d_loop ref_rate rate (d + 1) (m_loop ref_rate rate d 2 s))"
      using "1.IH"[OF True] "1.prems" by simp
    then show ?thesis using True by (subst (1 2) d_loop.simps) simp
  next
    case False
    then show ?thesis using "1.prems" by (subst (1 2) d_loop.simps) auto
  qed
qed

lemma search_cases:
  "search g p rate = scan_init (effective_rate p rate)
     \<or> chosen (g (clk_ref p)) (effective_rate p rate) (search g p rate)"
  unfolding search_def
  using d_loop_inv[of 1 "scan_init (effective_rate p rate)" "effective_rate p rate" "g (clk_ref p)"]
  by simp

text \<open>
  For a target below \<open>2^31 - 14\<close> a recorded candidate never has the value of
  \<^verbatim>\<open>-EFAULT\<close>: its error would be the target plus 14, not below the target.
\<close>

lemma efault_not_chosen:
  assumes "chosen ref_rate rate s" "0 \<le>s rate" "rate <s 2147483634"
  shows "ret s \<noteq> - EFAULT"
proof
  assume e: "ret s = - EFAULT"
  define x where "x = sint rate"
  have x: "0 \<le> x" "x < 2147483634"
    using assms(2,3) by (simp_all add: x_def word_sle_eq word_sless_alt)
  have d: "sint (- 14 - rate) = - 14 - x"
    using x by (simp add: sint_word_diff signed_take_bit_int_eq_self x_def)
  have neg: "(- 14 - rate) <s 0"
    using x by (simp add: word_sless_alt d)
  have a: "sint (- (- 14 - rate)) = 14 + x"
    using x by (simp only: sint_word_minus d) (simp add: signed_take_bit_int_eq_self)
  have "abs_c (ret s - rate) <s rate"
    using assms(1) unfolding chosen_def by metis
  then have "- (- 14 - rate) <s rate"
    using neg by (simp add: abs_c_def e EFAULT_def)
  then have "14 + x < x"
    unfolding word_sless_alt a by (simp add: x_def)
  then show False by simp
qed

lemma round_rate_unfold:
  "clk_ti_am3_dpll_round_rate g p rate s =
     (ret (search g p rate),
      p\<lparr>last_rounded_mult := word_of_int (mult (search g p rate)),
        last_rounded_div := word_of_int (div_c (search g p rate))\<rparr>,
      if max_rate p \<noteq> 0 \<and> max_rate p < rate
      then dev_warn (Warn_rate_too_high rate (max_rate p)) s else s)"
  by (simp add: clk_ti_am3_dpll_round_rate_def search_def effective_rate_def Let_def)

lemma IS_ERR_VALUE_EFAULT: "IS_ERR_VALUE (- EFAULT)"
  by (simp add: IS_ERR_VALUE_def EFAULT_def MAX_ERRNO_def)

subsection \<open>The search where no product wraps\<close>

lemma sint_small:
  assumes "uint (x :: 32 word) < 2 ^ 31"
  shows "sint x = uint x"
proof -
  have "- (2 ^ 31) \<le> uint x"
    by (rule order_trans[where y = 0]) simp_all
  then show ?thesis
    using assms by (simp only: sint_uint) (simp add: signed_take_bit_int_eq_self)
qed

lemma cand_word:
  fixes ref_rate :: ulong
  assumes "uint ref_rate * 2047 < 2 ^ 31" "2 \<le> m" "m \<le> 2047" "1 \<le> d" "d \<le> 128"
  shows "uint ((ref_rate * word_of_int m) div word_of_int d) = cand (uint ref_rate) m d"
    and "0 \<le> cand (uint ref_rate) m d" and "cand (uint ref_rate) m d < 2 ^ 31"
proof -
  have um: "uint (word_of_int m :: ulong) = m" and ud: "uint (word_of_int d :: ulong) = d"
    using assms by (simp_all add: uint_word_of_int)
  have "uint ref_rate * m \<le> uint ref_rate * 2047"
    using assms(3) by (simp add: mult_left_mono)
  then have p: "uint ref_rate * m < 2 ^ 31" "0 \<le> uint ref_rate * m"
    using assms(1,2) by simp_all
  then have "uint (ref_rate * word_of_int m) = uint ref_rate * m"
    by (simp add: uint_word_ariths um take_bit_int_eq_self flip: take_bit_eq_mod)
  then show "uint ((ref_rate * word_of_int m) div word_of_int d) = cand (uint ref_rate) m d"
    by (simp add: uint_div ud cand_def)
  show "0 \<le> cand (uint ref_rate) m d"
    using p(2) assms(4) by (simp add: cand_def pos_imp_zdiv_nonneg_iff)
  have "cand (uint ref_rate) m d \<le> uint ref_rate * m"
    unfolding cand_def using p(2) assms(4)
    by (metis div_by_1 zdiv_mono2 zero_less_one)
  then show "cand (uint ref_rate) m d < 2 ^ 31"
    using p(1) by simp
qed

lemma err_word:
  fixes r rate :: ulong
  assumes "uint r < 2 ^ 31" "uint rate < 2 ^ 31"
  shows "sint (abs_c (r - rate)) = \<bar>uint r - uint rate\<bar>"
proof -
  have s: "sint r = uint r" "sint rate = uint rate"
    using assms by (simp_all add: sint_small)
  have "- (2 ^ 31) < 0 - uint rate"
    using assms(2) by simp
  also have "\<dots> \<le> uint r - uint rate"
    by simp
  finally have b1: "- (2 ^ 31) < uint r - uint rate" .
  have "uint r - uint rate \<le> uint r"
    by simp
  then have b2: "uint r - uint rate < 2 ^ 31"
    using assms(1) by (rule le_less_trans)
  note b = b1 b2
  have d: "sint (r - rate) = uint r - uint rate"
    using b by (simp add: sint_word_diff s signed_take_bit_int_eq_self)
  show ?thesis
  proof (cases "r - rate <s 0")
    case True
    then have neg: "uint r - uint rate < 0"
      by (simp add: word_sless_alt d)
    have "sint (- (r - rate)) = - (uint r - uint rate)"
      using b by (simp only: sint_word_minus d) (simp add: signed_take_bit_int_eq_self)
    then show ?thesis using True neg by (simp add: abs_c_def)
  next
    case False
    then have "0 \<le> uint r - uint rate"
      by (simp add: word_sless_alt d)
    then show ?thesis using False d by (simp add: abs_c_def)
  qed
qed

lemma cand_mono: "0 \<le> R \<Longrightarrow> 1 \<le> d \<Longrightarrow> m \<le> m' \<Longrightarrow> cand R m d \<le> cand R m' d"
  unfolding cand_def by (intro zdiv_mono1) (simp_all add: mult_left_mono)

lemma before_nextD:
  "before d (m + 1) d' m' \<Longrightarrow> before d m d' m' \<or> (d' = d \<and> m' = m)"
  by (auto simp: before_def)

lemma before_nextI: "before d m d' m' \<Longrightarrow> before d (m + 1) d' m'"
  by (auto simp: before_def)

lemma before_self:
  "1 \<le> d \<Longrightarrow> d \<le> 128 \<Longrightarrow> 2 \<le> m \<Longrightarrow> m \<le> 2047 \<Longrightarrow> before d (m + 1) d m"
  by (simp add: before_def)

lemma before_rowD:
  "2 \<le> m \<Longrightarrow> before (d + 1) 2 d' m' \<Longrightarrow>
     before d m d' m' \<or> (d' = d \<and> m \<le> m' \<and> m' \<le> 2047)"
  by (auto simp: before_def)

lemma before_rowI: "before d m d' m' \<Longrightarrow> before (d + 1) 2 d' m'"
  by (auto simp: before_def)

lemma before_lex:
  "before d m d0 m0 \<Longrightarrow> d' = d \<Longrightarrow> m \<le> m' \<Longrightarrow> d0 < d' \<or> (d0 = d' \<and> m0 \<le> m')"
  by (auto simp: before_def)

lemma lower_boundD:
  "lower_bound ref_rate rate d m s \<Longrightarrow> before d m d' m' \<Longrightarrow>
     sint (err_min s) \<le> err_of ref_rate rate m' d'"
  by (simp add: lower_bound_def)

lemma lower_bound_nonneg: "lower_bound ref_rate rate d m s \<Longrightarrow> 0 \<le> sint (err_min s)"
  by (simp add: lower_bound_def)

lemma first_best_ties:
  "first_best ref_rate rate d m s \<Longrightarrow> before d m d' m' \<Longrightarrow>
     err_of ref_rate rate m' d' = sint (err_min s) \<Longrightarrow>
     div_c s < d' \<or> (div_c s = d' \<and> mult s \<le> m')"
  by (simp add: first_best_def)

lemma first_best_before: "first_best ref_rate rate d m s \<Longrightarrow> before d m (div_c s) (mult s)"
  by (simp add: first_best_def)

text \<open>Closing a row: nothing that is left in the row is closer than the summary.\<close>

lemma lower_bound_row:
  assumes "lower_bound ref_rate rate d m s" and "2 \<le> m"
      and rest: "\<And>m'. m \<le> m' \<Longrightarrow> m' \<le> 2047 \<Longrightarrow> sint (err_min s) \<le> err_of ref_rate rate m' d"
  shows "lower_bound ref_rate rate (d + 1) 2 s"
  unfolding lower_bound_def
proof (intro conjI allI impI)
  show "0 \<le> sint (err_min s)" using assms(1) by (rule lower_bound_nonneg)
next
  fix d' m' assume "before (d + 1) 2 d' m'"
  then have "before d m d' m' \<or> (d' = d \<and> m \<le> m' \<and> m' \<le> 2047)"
    using assms(2) by (rule before_rowD[rotated])
  then show "sint (err_min s) \<le> err_of ref_rate rate m' d'"
  proof
    assume "before d m d' m'"
    then show ?thesis using assms(1) by (rule lower_boundD[rotated])
  next
    assume "d' = d \<and> m \<le> m' \<and> m' \<le> 2047"
    then show ?thesis using rest[of m'] by simp
  qed
qed

lemma first_best_row:
  assumes "first_best ref_rate rate d m s" and "2 \<le> m"
  shows "first_best ref_rate rate (d + 1) 2 s"
proof -
  have b0: "before d m (div_c s) (mult s)"
    using assms(1) by (rule first_best_before)
  then have b: "before (d + 1) 2 (div_c s) (mult s)"
    by (rule before_rowI)
  have t: "div_c s < d' \<or> (div_c s = d' \<and> mult s \<le> m')"
    if "before (d + 1) 2 d' m'" "err_of ref_rate rate m' d' = sint (err_min s)" for d' m'
  proof -
    have "before d m d' m' \<or> (d' = d \<and> m \<le> m')"
      using before_rowD[OF assms(2) that(1)] by blast
    then show ?thesis
    proof
      assume "before d m d' m'"
      then show ?thesis using first_best_ties[OF assms(1) _ that(2)] by simp
    next
      assume "d' = d \<and> m \<le> m'"
      then show ?thesis using before_lex[OF b0, of d' m'] by simp
    qed
  qed
  show ?thesis
    unfolding first_best_def
    using b t assms(1) by (simp add: first_best_def)
qed

lemma err_of_nonneg: "0 \<le> err_of ref_rate rate m d"
  by (simp add: err_of_def)

lemma lower_bound_next:
  assumes "lower_bound ref_rate rate d m s" and "sint (err_min s) \<le> err_of ref_rate rate m d"
  shows "lower_bound ref_rate rate d (m + 1) s"
  unfolding lower_bound_def
proof (intro conjI allI impI)
  show "0 \<le> sint (err_min s)" using assms(1) by (rule lower_bound_nonneg)
next
  fix d' m' assume "before d (m + 1) d' m'"
  then have "before d m d' m' \<or> (d' = d \<and> m' = m)" by (rule before_nextD)
  then show "sint (err_min s) \<le> err_of ref_rate rate m' d'"
  proof
    assume "before d m d' m'"
    then show ?thesis using assms(1) by (rule lower_boundD[rotated])
  next
    assume "d' = d \<and> m' = m"
    then show ?thesis using assms(2) by simp
  qed
qed

lemma first_best_next:
  assumes "first_best ref_rate rate d m s"
  shows "first_best ref_rate rate d (m + 1) s"
proof -
  have b0: "before d m (div_c s) (mult s)"
    using assms by (rule first_best_before)
  then have b: "before d (m + 1) (div_c s) (mult s)"
    by (rule before_nextI)
  have t: "div_c s < d' \<or> (div_c s = d' \<and> mult s \<le> m')"
    if "before d (m + 1) d' m'" "err_of ref_rate rate m' d' = sint (err_min s)" for d' m'
  proof -
    have "before d m d' m' \<or> (d' = d \<and> m' = m)"
      using that(1) by (rule before_nextD)
    then show ?thesis
    proof
      assume "before d m d' m'"
      then show ?thesis using first_best_ties[OF assms _ that(2)] by simp
    next
      assume "d' = d \<and> m' = m"
      then show ?thesis using before_lex[OF b0, of d' m'] by simp
    qed
  qed
  show ?thesis
    unfolding first_best_def
    using b t assms by (simp add: first_best_def)
qed

text \<open>Recording a strictly better candidate.\<close>

lemma update_summary:
  assumes lb: "lower_bound ref_rate rate d m s"
      and range: "1 \<le> d" "d \<le> 128" "2 \<le> m" "m \<le> 2047"
      and r: "uint r = cand (uint ref_rate) m d"
      and e: "sint err = err_of ref_rate rate m d"
      and better: "sint err < sint (err_min s)"
  shows "lower_bound ref_rate rate d (m + 1) (s\<lparr>err_min := err, ret := r, mult := m, div_c := d\<rparr>)"
    and "first_best ref_rate rate d (m + 1) (s\<lparr>err_min := err, ret := r, mult := m, div_c := d\<rparr>)"
proof -
  let ?s = "s\<lparr>err_min := err, ret := r, mult := m, div_c := d\<rparr>"
  have old: "sint err < err_of ref_rate rate m' d'" if "before d m d' m'" for d' m'
    using lower_boundD[OF lb that] better by simp
  have new: "sint err \<le> err_of ref_rate rate m' d'" if "before d (m + 1) d' m'" for d' m'
  proof -
    have "before d m d' m' \<or> (d' = d \<and> m' = m)"
      using that by (rule before_nextD)
    then show ?thesis using old[of d' m'] e by auto
  qed
  show "lower_bound ref_rate rate d (m + 1) ?s"
    unfolding lower_bound_def using new e err_of_nonneg[of ref_rate rate m d] by simp
  have t: "d < d' \<or> (d = d' \<and> m \<le> m')"
    if "before d (m + 1) d' m'" "err_of ref_rate rate m' d' = sint err" for d' m'
  proof -
    have "before d m d' m' \<or> (d' = d \<and> m' = m)"
      using that(1) by (rule before_nextD)
    then show ?thesis using old[of d' m'] that(2) by auto
  qed
  show "first_best ref_rate rate d (m + 1) ?s"
    unfolding first_best_def using before_self[OF range] r e t by simp
qed

text \<open>After an overshoot the rest of the row is no closer: the rate grows with \<open>m\<close>.\<close>

lemma overshoot_rest:
  assumes "uint rate < cand (uint ref_rate) m d" and "1 \<le> d" and "m \<le> m'"
  shows "err_of ref_rate rate m d \<le> err_of ref_rate rate m' d"
proof -
  have "cand (uint ref_rate) m d \<le> cand (uint ref_rate) m' d"
    using assms(2,3) by (intro cand_mono) simp_all
  then show ?thesis using assms(1) by (simp add: err_of_def)
qed

lemma summarises_row:
  assumes "summarises ref_rate rate d m s" and "2 \<le> m"
      and "\<And>m'. m \<le> m' \<Longrightarrow> m' \<le> 2047 \<Longrightarrow> sint (err_min s) \<le> err_of ref_rate rate m' d"
  shows "summarises ref_rate rate (d + 1) 2 s"
proof -
  have "lower_bound ref_rate rate (d + 1) 2 s"
    using assms by (intro lower_bound_row[of ref_rate rate d m s]) (simp_all add: summarises_def)
  moreover have "s = scan_init rate \<or> first_best ref_rate rate (d + 1) 2 s"
    using assms(1,2) first_best_row[of ref_rate rate d m s] by (auto simp: summarises_def)
  ultimately show ?thesis by (simp add: summarises_def)
qed

lemma m_loop_summarises:
  "uint ref_rate * 2047 < 2 ^ 31 \<Longrightarrow> uint rate < 2 ^ 31 \<Longrightarrow>
   2 \<le> m \<Longrightarrow> m \<le> 2048 \<Longrightarrow> 1 \<le> d \<Longrightarrow> d \<le> 128 \<Longrightarrow>
   summarises ref_rate rate d m s \<Longrightarrow>
   summarises ref_rate rate (d + 1) 2 (m_loop ref_rate rate d m s)"
proof (induction ref_rate rate d m s rule: m_loop.induct)
  case (1 ref_rate rate d m s)
  let ?r = "(ref_rate * word_of_int m) div word_of_int d"
  let ?err = "abs_c (?r - rate)"
  let ?s' = "s\<lparr>err_min := ?err, ret := ?r, mult := m, div_c := d\<rparr>"
  note nw = "1.prems"(1,2) and d = "1.prems"(5,6) and sum = "1.prems"(7)
  have lb: "lower_bound ref_rate rate d m s"
    using sum by (simp add: summarises_def)
  show ?case
  proof (cases "m \<le> 2047")
    case False
    then have "m_loop ref_rate rate d m s = s"
      by (subst m_loop.simps) simp
    moreover have "summarises ref_rate rate (d + 1) 2 s"
      using sum "1.prems"(3) False by (intro summarises_row[of ref_rate rate d m s]) simp_all
    ultimately show ?thesis by simp
  next
    case in_range: True
    note m = "1.prems"(3) in_range
    have ur: "uint ?r = cand (uint ref_rate) m d" and r31: "uint ?r < 2 ^ 31"
      using cand_word(1,3)[OF nw(1) m d] by simp_all
    have se: "sint ?err = err_of ref_rate rate m d"
      using err_word[OF r31 nw(2)] by (simp add: ur err_of_def)
    show ?thesis
    proof (cases "?err <s err_min s")
      case better: True
      then have lt: "sint ?err < sint (err_min s)"
        by (simp add: word_sless_alt)
      have lb': "lower_bound ref_rate rate d (m + 1) ?s'"
        and fb': "first_best ref_rate rate d (m + 1) ?s'"
        using update_summary[OF lb d m ur se lt] by simp_all
      then have sum': "summarises ref_rate rate d (m + 1) ?s'"
        by (simp add: summarises_def)
      show ?thesis
      proof (cases "?err = 0")
        case True
        then have eq: "m_loop ref_rate rate d m s = ?s'"
          using in_range better by (subst m_loop.simps) (simp add: Let_def)
        have "summarises ref_rate rate (d + 1) 2 ?s'"
          using sum' m(1) True
          by (intro summarises_row[of ref_rate rate d "m + 1" ?s']) (simp_all add: err_of_nonneg)
        then show ?thesis by (simp only: eq)
      next
        case False
        then have eq: "m_loop ref_rate rate d m s = m_loop ref_rate rate d (m + 1) ?s'"
          using in_range better by (subst m_loop.simps) (simp add: Let_def)
        have "summarises ref_rate rate (d + 1) 2 (m_loop ref_rate rate d (m + 1) ?s')"
          using "1.IH"(1)[OF in_range refl refl better refl False nw _ _ d sum'] m by simp
        then show ?thesis by (simp only: eq)
      qed
    next
      case worse: False
      then have ge: "sint (err_min s) \<le> err_of ref_rate rate m d"
        by (simp add: word_sless_alt se)
      show ?thesis
      proof (cases "rate < ?r")
        case True
        then have eq: "m_loop ref_rate rate d m s = s"
          using in_range worse by (subst m_loop.simps) (simp add: Let_def)
        have over: "uint rate < cand (uint ref_rate) m d"
          using True by (simp add: word_less_def ur)
        have "sint (err_min s) \<le> err_of ref_rate rate m' d" if "m \<le> m'" for m'
          using ge overshoot_rest[OF over d(1) that] by simp
        then have "summarises ref_rate rate (d + 1) 2 s"
          using sum m(1) by (intro summarises_row[of ref_rate rate d m s]) simp_all
        then show ?thesis by (simp only: eq)
      next
        case False
        then have eq: "m_loop ref_rate rate d m s = m_loop ref_rate rate d (m + 1) s"
          using in_range worse by (subst m_loop.simps) (simp add: Let_def)
        have "lower_bound ref_rate rate d (m + 1) s"
          using lb ge by (rule lower_bound_next)
        moreover have "s = scan_init rate \<or> first_best ref_rate rate d (m + 1) s"
          using sum first_best_next[of ref_rate rate d m s] by (auto simp: summarises_def)
        ultimately have sum': "summarises ref_rate rate d (m + 1) s"
          by (simp add: summarises_def)
        have "summarises ref_rate rate (d + 1) 2 (m_loop ref_rate rate d (m + 1) s)"
          using "1.IH"(2)[OF in_range refl refl worse False nw _ _ d sum'] m by simp
        then show ?thesis by (simp only: eq)
      qed
    qed
  qed
qed

lemma before_all: "before d 2 d' m' \<longleftrightarrow> 1 \<le> d' \<and> d' < d \<and> d' \<le> 128 \<and> 2 \<le> m' \<and> m' \<le> 2047"
  by (auto simp: before_def)

text \<open>With error 0 the summary of the rows scanned so far is a summary of any more rows.\<close>

lemma summarises_zero:
  assumes "summarises ref_rate rate d 2 s" and "err_min s = 0" and "d \<le> d2"
  shows "summarises ref_rate rate d2 2 s"
proof -
  have lb: "lower_bound ref_rate rate d2 2 s"
    unfolding lower_bound_def using assms(2) by (simp add: err_of_nonneg)
  have fb: "first_best ref_rate rate d2 2 s" if f: "first_best ref_rate rate d 2 s"
  proof -
    have b0: "before d 2 (div_c s) (mult s)"
      using f by (rule first_best_before)
    then have b: "before d2 2 (div_c s) (mult s)"
      using assms(3) by (simp add: before_all)
    have t: "div_c s < d' \<or> (div_c s = d' \<and> mult s \<le> m')"
      if "before d2 2 d' m'" "err_of ref_rate rate m' d' = sint (err_min s)" for d' m'
    proof (cases "d' < d")
      case True
      then have "before d 2 d' m'" using that(1) by (simp add: before_all)
      then show ?thesis using first_best_ties[OF f _ that(2)] by simp
    next
      case False
      then show ?thesis using b0 by (simp add: before_all)
    qed
    show ?thesis
      unfolding first_best_def using b t f by (simp add: first_best_def)
  qed
  show ?thesis
    using lb fb assms(1) by (auto simp: summarises_def)
qed

lemma d_loop_summarises:
  "uint ref_rate * 2047 < 2 ^ 31 \<Longrightarrow> uint rate < 2 ^ 31 \<Longrightarrow> 1 \<le> d \<Longrightarrow> d \<le> 129 \<Longrightarrow>
   summarises ref_rate rate d 2 s \<Longrightarrow>
   summarises ref_rate rate 129 2 (d_loop ref_rate rate d s)"
proof (induction ref_rate rate d s rule: d_loop.induct)
  case (1 ref_rate rate d s)
  show ?case
  proof (cases "err_min s \<noteq> 0 \<and> d \<le> 128")
    case True
    then have eq: "d_loop ref_rate rate d s = d_loop ref_rate rate (d + 1) (m_loop ref_rate rate d 2 s)"
      by (subst d_loop.simps) simp
    have "summarises ref_rate rate (d + 1) 2 (m_loop ref_rate rate d 2 s)"
      using m_loop_summarises[of ref_rate rate 2 d s] "1.prems" True by simp
    then have "summarises ref_rate rate 129 2 (d_loop ref_rate rate (d + 1) (m_loop ref_rate rate d 2 s))"
      using "1.IH"[OF True "1.prems"(1,2)] "1.prems"(3) True by simp
    then show ?thesis by (simp only: eq)
  next
    case False
    then have eq: "d_loop ref_rate rate d s = s"
      by (subst d_loop.simps) auto
    have "summarises ref_rate rate 129 2 s"
    proof (cases "err_min s = 0")
      case True
      then show ?thesis using summarises_zero[OF "1.prems"(5) True "1.prems"(4)] by simp
    next
      case nz: False
      then have "d = 129" using False "1.prems"(4) by simp
      then show ?thesis using "1.prems"(5) by simp
    qed
    then show ?thesis by (simp only: eq)
  qed
qed

lemma scan_init_summarises:
  assumes "uint rate < 2 ^ 31"
  shows "summarises ref_rate rate 1 2 (scan_init rate)"
proof -
  have "0 \<le> sint rate"
    using sint_small[OF assms] by simp
  then show ?thesis
    by (simp add: summarises_def lower_bound_def before_all scan_init_def)
qed

text \<open>
  Where no product wraps (reference times 2047 below \<open>2^31\<close>, target below \<open>2^31\<close>) a
  search that records a candidate records the first pair, in the order of the scan, of
  least distance to the target among all pairs of the search space.
\<close>

lemma search_optimal_without_wrap:
  assumes "uint (g (clk_ref p)) * 2047 < 2 ^ 31" and "uint (effective_rate p rate) < 2 ^ 31"
      and "search g p rate \<noteq> scan_init (effective_rate p rate)"
      and "1 \<le> d" "d \<le> 128" "2 \<le> m" "m \<le> 2047"
  shows "1 \<le> div_c (search g p rate) \<and> div_c (search g p rate) \<le> 128 \<and>
         2 \<le> mult (search g p rate) \<and> mult (search g p rate) \<le> 2047 \<and>
         uint (ret (search g p rate))
           = (uint (g (clk_ref p)) * mult (search g p rate)) div div_c (search g p rate) \<and>
         \<bar>uint (ret (search g p rate)) - uint (effective_rate p rate)\<bar>
           \<le> \<bar>(uint (g (clk_ref p)) * m) div d - uint (effective_rate p rate)\<bar> \<and>
         (\<bar>(uint (g (clk_ref p)) * m) div d - uint (effective_rate p rate)\<bar>
            = \<bar>uint (ret (search g p rate)) - uint (effective_rate p rate)\<bar> \<longrightarrow>
          div_c (search g p rate) < d \<or>
          (div_c (search g p rate) = d \<and> mult (search g p rate) \<le> m))"
proof -
  let ?f = "search g p rate" and ?R = "g (clk_ref p)" and ?T = "effective_rate p rate"
  have "summarises ?R ?T 129 2 ?f"
    unfolding search_def
    using d_loop_summarises[of ?R ?T 1 "scan_init ?T"] assms(1,2)
      scan_init_summarises[OF assms(2), of ?R]
    by simp
  then have lb: "lower_bound ?R ?T 129 2 ?f" and fb: "first_best ?R ?T 129 2 ?f"
    using assms(3) by (simp_all add: summarises_def)
  have b: "before 129 2 d m"
    using assms(4-7) by (simp add: before_all)
  have r: "before 129 2 (div_c ?f) (mult ?f)"
    and u: "uint (ret ?f) = cand (uint ?R) (mult ?f) (div_c ?f)"
    and e: "sint (err_min ?f) = err_of ?R ?T (mult ?f) (div_c ?f)"
    using fb by (simp_all add: first_best_def)
  have le: "sint (err_min ?f) \<le> err_of ?R ?T m d"
    using lb b by (rule lower_boundD)
  have ties: "err_of ?R ?T m d = sint (err_min ?f) \<Longrightarrow>
      div_c ?f < d \<or> (div_c ?f = d \<and> mult ?f \<le> m)"
    using first_best_ties[OF fb b] by simp
  show ?thesis
    using r u e le ties by (simp add: before_all err_of_def cand_def)
qed

text \<open>
  Under the same conditions a search that records no candidate has found no pair
  closer to the target than the rate 0.
\<close>

lemma search_no_solution_without_wrap:
  assumes "uint (g (clk_ref p)) * 2047 < 2 ^ 31" and "uint (effective_rate p rate) < 2 ^ 31"
      and "search g p rate = scan_init (effective_rate p rate)"
      and "1 \<le> d" "d \<le> 128" "2 \<le> m" "m \<le> 2047"
  shows "uint (effective_rate p rate)
           \<le> \<bar>(uint (g (clk_ref p)) * m) div d - uint (effective_rate p rate)\<bar>"
proof -
  let ?f = "search g p rate" and ?R = "g (clk_ref p)" and ?T = "effective_rate p rate"
  have "summarises ?R ?T 129 2 ?f"
    unfolding search_def
    using d_loop_summarises[of ?R ?T 1 "scan_init ?T"] assms(1,2)
      scan_init_summarises[OF assms(2), of ?R]
    by simp
  then have lb: "lower_bound ?R ?T 129 2 ?f"
    by (simp add: summarises_def)
  have "before 129 2 d m"
    using assms(4-7) by (simp add: before_all)
  then have "sint (err_min ?f) \<le> err_of ?R ?T m d"
    using lb by (rule lower_boundD[rotated])
  moreover have "sint (err_min ?f) = uint ?T"
    using sint_small[OF assms(2)] by (simp add: assms(3) scan_init_def)
  ultimately show ?thesis
    by (simp add: err_of_def cand_def)
qed

subsection \<open>Scans of concrete targets\<close>

lemma scan_24mhz_1ghz:
  "d_loop 24000000 1000000000 1 (scan_init 1000000000)
     = \<lparr>err_min = 0, ret = 1000000000, mult = 125, div_c = 3\<rparr>"
  by code_simp

lemma scan_24mhz_854606540:
  "d_loop 24000000 854606540 1 (scan_init 854606540)
     = \<lparr>err_min = 0, ret = 854606540, mult = 357, div_c = 5\<rparr>"
  by code_simp

lemma scan_24mhz_1khz:
  "d_loop 24000000 1000 1 (scan_init 1000) = scan_init 1000"
  by code_simp

lemma round_rate_1ghz:
  "clk_ti_am3_dpll_round_rate osc_24mhz (p\<lparr>max_rate := 1000000000\<rparr>) 1000000000 s
     = (1000000000, p\<lparr>max_rate := 1000000000, last_rounded_mult := 125, last_rounded_div := 3\<rparr>, s)"
  by (simp add: round_rate_unfold search_def effective_rate_def osc_24mhz_def scan_24mhz_1ghz)

lemma round_rate_1khz:
  "clk_ti_am3_dpll_round_rate osc_24mhz (p\<lparr>max_rate := 1000000000\<rparr>) 1000 s
     = (- EFAULT, p\<lparr>max_rate := 1000000000, last_rounded_mult := 0xFFFF, last_rounded_div := 0xFF\<rparr>, s)"
  by (simp add: round_rate_unfold search_def effective_rate_def osc_24mhz_def scan_24mhz_1khz)
     (simp add: scan_init_def INT_MAX_def)

lemma mpu_priv_max: "mpu_priv\<lparr>max_rate := 1000000000\<rparr> = mpu_priv"
  by (simp add: mpu_priv_def)

lemma mpu_round_rate_1ghz:
  "clk_ti_am3_dpll_round_rate osc_24mhz mpu_priv 1000000000 idle_machine
     = (1000000000, mpu_priv\<lparr>last_rounded_mult := 125, last_rounded_div := 3\<rparr>, idle_machine)"
  using round_rate_1ghz[of mpu_priv idle_machine] by (simp add: mpu_priv_max)

lemma mpu_round_rate_1khz:
  "clk_ti_am3_dpll_round_rate osc_24mhz mpu_priv 1000 idle_machine
     = (- EFAULT, mpu_priv\<lparr>last_rounded_mult := 0xFFFF, last_rounded_div := 0xFF\<rparr>, idle_machine)"
  using round_rate_1khz[of mpu_priv idle_machine] by (simp add: mpu_priv_max)

lemma not_err_1ghz: "\<not> IS_ERR_VALUE 1000000000"
  by (simp add: IS_ERR_VALUE_def MAX_ERRNO_def)

subsection \<open>The paths of \<^verbatim>\<open>set_rate\<close>\<close>

lemma round_rate_machine:
  "clk_ti_am3_dpll_round_rate g p rate s = (r, p', s1) \<Longrightarrow>
     regs s1 = regs s \<and> bus s1 = bus s \<and> clksel_reg p' = clksel_reg p
     \<and> clkmode_reg p' = clkmode_reg p \<and> idlest_reg p' = idlest_reg p"
  by (auto simp: round_rate_unfold dev_warn_def split: if_splits)

lemma set_rate_error_path:
  "clk_ti_am3_dpll_round_rate g p rate s = (r, p', s1) \<Longrightarrow> IS_ERR_VALUE r \<Longrightarrow>
     clk_ti_am3_dpll_set_rate H g hw p rate s = (Returned r, p', s1)"
  by (simp add: clk_ti_am3_dpll_set_rate_def)

lemma set_rate_program_path:
  assumes "clk_ti_am3_dpll_round_rate g p rate s = (r, p', s1)" and "\<not> IS_ERR_VALUE r"
  shows "fst (clk_ti_am3_dpll_set_rate H g hw p rate s) = (if lock_seen hw then Returned r else Hung)"
    and "fst (snd (clk_ti_am3_dpll_set_rate H g hw p rate s)) = p'"
    and "bus (snd (snd (clk_ti_am3_dpll_set_rate H g hw p rate s)))
           = bus s @ programming_sequence H p (set_M_N H (regs s (clksel_reg p)) p')"
    and "console (snd (snd (clk_ti_am3_dpll_set_rate H g hw p rate s)))
           = console s1 @ (if bypass_seen hw then [] else [Err_failed_bypassing])
               @ (if lock_seen hw then [] else [Err_failed_locking])"
    and "regs (snd (snd (clk_ti_am3_dpll_set_rate H g hw p rate s)))
           = regs (snd (snd (clk_ti_am3_dpll_set_rate H g hw' p rate s)))"
  using assms round_rate_machine[OF assms(1)]
  by (simp_all add: clk_ti_am3_dpll_set_rate_def Let_def readl_def writel_def clrsetbits_le32_def
      wait_on_value_def dev_err_def programming_sequence_def)

subsection \<open>Bit fields of the select register\<close>

lemma field_update:
  fixes v x m :: u32
  assumes "m = push_bit sh (mask w)" "sh + w \<le> 32" "x < 2 ^ w"
  shows "drop_bit sh (((v AND NOT m) OR (push_bit sh x AND m)) AND m) = x"
proof -
  have xm: "x AND mask w = x" using assms(3) by (rule less_mask_eq)
  have "((v AND NOT m) OR (push_bit sh x AND m)) AND m = push_bit sh x AND m"
    by (rule bit_word_eqI) (auto simp: bit_simps)
  also have "\<dots> = push_bit sh (x AND mask w)"
    by (simp add: assms(1))
  finally have "drop_bit sh (((v AND NOT m) OR (push_bit sh x AND m)) AND m) = drop_bit sh (push_bit sh x)"
    by (simp add: xm)
  also have "\<dots> = x"
  proof (rule bit_word_eqI)
    fix n assume "n < LENGTH(32)"
    have "bit x n \<Longrightarrow> n < w"
      using xm by (metis bit_and_iff bit_mask_iff)
    then show "bit (drop_bit sh (push_bit sh x)) n = bit x n"
      using assms(2) by (auto simp: bit_simps)
  qed
  finally show ?thesis .
qed

lemma set_M_N_frame:
  "set_M_N H v p AND NOT (CM_CLKSEL_DPLL_M_MASK H OR CM_CLKSEL_DPLL_N_MASK H)
     = v AND NOT (CM_CLKSEL_DPLL_M_MASK H OR CM_CLKSEL_DPLL_N_MASK H)"
  unfolding set_M_N_def Let_def
  by (rule bit_word_eqI) (auto simp: bit_simps)

lemma set_M_N_div:
  assumes "clksel_fields H" and "(ucast (last_rounded_div p) :: u32) - 1 < 2 ^ 7"
  shows "drop_bit (CM_CLKSEL_DPLL_N_SHIFT H) (set_M_N H v p AND CM_CLKSEL_DPLL_N_MASK H)
           = ucast (last_rounded_div p) - 1"
  using assms unfolding set_M_N_def Let_def clksel_fields_def
  by (intro field_update) auto

lemma set_M_N_mult:
  assumes "clksel_fields H" and "(ucast (last_rounded_mult p) :: u32) < 2 ^ 11"
  shows "drop_bit (CM_CLKSEL_DPLL_M_SHIFT H) (set_M_N H v p AND CM_CLKSEL_DPLL_M_MASK H)
           = ucast (last_rounded_mult p)"
proof -
  let ?M = "CM_CLKSEL_DPLL_M_MASK H" and ?N = "CM_CLKSEL_DPLL_N_MASK H"
  let ?pm = "push_bit (CM_CLKSEL_DPLL_M_SHIFT H) (ucast (last_rounded_mult p) :: u32)"
  have disj: "?M AND ?N = 0" using assms(1) unfolding clksel_fields_def by blast
  have nb: "\<And>n. bit ?M n \<Longrightarrow> \<not> bit ?N n"
  proof
    fix n assume "bit ?M n" "bit ?N n"
    then have "bit (?M AND ?N) n" by (simp add: bit_and_iff)
    then show False by (simp add: disj)
  qed
  have "set_M_N H v p AND ?M = ((v AND NOT ?M) OR (?pm AND ?M)) AND ?M"
    unfolding set_M_N_def Let_def
    by (rule bit_word_eqI) (use nb in \<open>auto simp: bit_simps\<close>)
  then show ?thesis
    using assms field_update[of ?M "CM_CLKSEL_DPLL_M_SHIFT H" 11 "ucast (last_rounded_mult p)" v]
    by (simp add: clksel_fields_def)
qed

lemma chosen_fields:
  assumes "chosen ref_rate rate f"
  shows "uint (word_of_int (mult f) :: u16) = mult f"
    and "uint (word_of_int (div_c f) :: u8) = div_c f"
    and "(ucast (word_of_int (mult f) :: u16) :: u32) < 2 ^ 11"
    and "(ucast (word_of_int (div_c f) :: u8) :: u32) - 1 < 2 ^ 7"
proof -
  have m: "2 \<le> mult f" "mult f \<le> 2047" and d: "1 \<le> div_c f" "div_c f \<le> 128"
    using assms by (simp_all add: chosen_def)
  show um: "uint (word_of_int (mult f) :: u16) = mult f"
    using m by (simp add: uint_word_of_int take_bit_int_eq_self)
  show ud: "uint (word_of_int (div_c f) :: u8) = div_c f"
    using d by (simp add: uint_word_of_int take_bit_int_eq_self)
  have "uint (ucast (word_of_int (mult f) :: u16) :: u32) = mult f"
    using um by (simp add: uint_up_ucast is_up)
  then show "(ucast (word_of_int (mult f) :: u16) :: u32) < 2 ^ 11"
    using m by (simp add: word_less_def)
  have e: "uint (ucast (word_of_int (div_c f) :: u8) :: u32) = div_c f"
    using ud by (simp add: uint_up_ucast is_up)
  have "uint ((ucast (word_of_int (div_c f) :: u8) :: u32) - 1) = div_c f - 1"
    using d e by (simp add: uint_word_ariths take_bit_int_eq_self)
  then show "(ucast (word_of_int (div_c f) :: u8) :: u32) - 1 < 2 ^ 7"
    using d by (simp add: word_less_def)
qed

lemma n_plus_one:
  fixes v m :: u32
  assumes "m \<noteq> - 1 \<or> sh \<noteq> 0"
  shows "drop_bit sh (v AND m) + 1 \<noteq> 0"
proof
  assume "drop_bit sh (v AND m) + 1 = 0"
  then have all: "drop_bit sh (v AND m) = - 1"
    by (simp add: add_eq_0_iff2)
  have b: "\<And>n. n < 32 \<Longrightarrow> bit (drop_bit sh (v AND m)) n"
    unfolding all by simp
  have "sh = 0"
  proof (rule ccontr)
    assume "sh \<noteq> 0"
    then have "\<not> bit (drop_bit sh (v AND m)) 31"
      by (auto simp: bit_simps dest: bit_imp_le_length)
    then show False using b[of 31] by simp
  qed
  moreover have "m = - 1"
  proof (rule bit_word_eqI)
    fix n assume n: "n < LENGTH(32)"
    then have "bit (drop_bit sh (v AND m)) n" using b by simp
    then show "bit m n = bit (- 1 :: u32) n"
      using \<open>sh = 0\<close> n by (simp add: bit_simps)
  qed
  ultimately show False using assms by simp
qed

lemma am33xx_fields: "clksel_fields am33xx_clock_h"
  by (simp add: clksel_fields_def am33xx_clock_h_def mask_eq_exp_minus_1)

lemma one_le: "(x :: u32) \<noteq> 0 \<Longrightarrow> 1 \<le> x"
  by (simp add: word_le_sub1)

lemma not_err_chosen:
  assumes "clk_ti_am3_dpll_round_rate g p rate s = (r, p', s1)" and "\<not> IS_ERR_VALUE r"
  shows "chosen (g (clk_ref p)) (effective_rate p rate) (search g p rate)"
proof -
  have r: "r = ret (search g p rate)"
    using assms(1) by (simp add: round_rate_unfold)
  have "search g p rate \<noteq> scan_init (effective_rate p rate)"
  proof
    assume "search g p rate = scan_init (effective_rate p rate)"
    then have "r = - EFAULT" using r by (simp add: scan_init_def)
    then show False using assms(2) IS_ERR_VALUE_EFAULT by simp
  qed
  then show ?thesis using search_cases[of g p rate] by simp
qed

subsection \<open>The two branches of \<^verbatim>\<open>get_rate\<close>\<close>

text \<open>
  In bypass the rate of the bypass clock is returned after the single read of
  the mode-control register. Otherwise the result is the 32-bit quotient of the
  32-bit product: widening to \<^verbatim>\<open>u64\<close> after the multiplication and narrowing
  after the division change nothing.
\<close>

lemma get_rate_bypass:
  assumes "en_field H (regs s (clkmode_reg p)) \<in>
             {DPLL_EN_MN_BYPASS H, DPLL_EN_LOW_POWER_BYPASS H, DPLL_EN_FAST_RELOCK_BYPASS H}"
  shows "clk_ti_am3_dpll_get_rate H g p s
           = (Inr (g (clk_bypass p)), s\<lparr>bus := bus s @ [Readl (clkmode_reg p)]\<rparr>)"
  using assms
  by (auto simp: clk_ti_am3_dpll_get_rate_def en_field_def readl_def Let_def ucast_up_ucast_id is_up)

lemma narrow_wide_div:
  fixes a b :: u32
  shows "(ucast ((ucast a :: u64) div ucast b) :: u32) = a div b"
proof -
  have ua: "uint (ucast a :: u64) = uint a" and ub: "uint (ucast b :: u64) = uint b"
    by (simp_all add: uint_up_ucast is_up)
  have q: "uint ((ucast a :: u64) div ucast b) = uint a div uint b"
    by (simp add: uint_div ua ub)
  have "uint a div uint b \<le> uint a"
    using int_div_le_self[of "uint a" "uint b"] by (cases "uint a = 0") (auto simp: less_le)
  then have small: "uint a div uint b < 2 ^ 32"
    using uint_lt2p[of a] by simp
  have "0 \<le> uint a div uint b"
    using div_int_pos_iff[of "uint a" "uint b"] by simp
  then have "uint (ucast ((ucast a :: u64) div ucast b) :: u32) = uint a div uint b"
    using small by (simp add: unsigned_ucast_eq q take_bit_int_eq_self)
  then show ?thesis
    by (simp add: word_eq_iff_unsigned[where 'a = int] uint_div)
qed

lemma get_rate_locked:
  assumes "en_field H (regs s (clkmode_reg p)) \<notin>
             {DPLL_EN_MN_BYPASS H, DPLL_EN_LOW_POWER_BYPASS H, DPLL_EN_FAST_RELOCK_BYPASS H}"
      and "CM_CLKSEL_DPLL_N_MASK H \<noteq> - 1 \<or> CM_CLKSEL_DPLL_N_SHIFT H \<noteq> 0"
  shows "fst (clk_ti_am3_dpll_get_rate H g p s)
           = (let v = regs s (clksel_reg p);
                  m = drop_bit (CM_CLKSEL_DPLL_M_SHIFT H) (v AND CM_CLKSEL_DPLL_M_MASK H);
                  n = drop_bit (CM_CLKSEL_DPLL_N_SHIFT H) (v AND CM_CLKSEL_DPLL_N_MASK H)
              in Inr ((g (clk_ref p) * m) div (n + 1)))"
  using assms n_plus_one[OF assms(2), of "regs s (clksel_reg p)"]
  by (simp add: clk_ti_am3_dpll_get_rate_def en_field_def readl_def Let_def do_div_def
      narrow_wide_div)

section \<open>The claims\<close>

text \<open>
  Claim C1 (the search returns the pair of least error, with the rate
  \<open>floor(referenceRate * mult / div)\<close>) does not hold of the code: the product
  \<^verbatim>\<open>ref_rate * m\<close> is a 32-bit \<^verbatim>\<open>ulong\<close> and wraps around. With the 24 MHz
  reference and the target 854606540 Hz under the 1 GHz ceiling, the scan
  reaches \<open>d = 5\<close>, \<open>m = 357\<close>, where \<open>24000000 * 357\<close> wraps to 4273032704;
  the quotient 854606540 equals the target, so the search stops with error 0
  and records the pair (357, 5). The rate of that pair is 1713600000 Hz, while
  the pair (107, 3) gives 856000000 Hz.
\<close>

theorem round_rate_product_wraps:
  "clk_ti_am3_dpll_round_rate osc_24mhz (p\<lparr>max_rate := 1000000000\<rparr>) 854606540 s
     = (854606540, p\<lparr>max_rate := 1000000000, last_rounded_mult := 357, last_rounded_div := 5\<rparr>, s)
   \<and> uint (fst (clk_ti_am3_dpll_round_rate osc_24mhz (p\<lparr>max_rate := 1000000000\<rparr>) 854606540 s))
       \<noteq> (24000000 * 357) div 5
   \<and> (24000000 * 357) div 5 = (1713600000 :: int)
   \<and> (24000000 * 107) div 3 = (856000000 :: int)
   \<and> \<bar>(24000000 * 107) div 3 - 854606540\<bar> < \<bar>(24000000 * 357) div 5 - (854606540 :: int)\<bar>"
  by (simp add: round_rate_unfold search_def effective_rate_def osc_24mhz_def scan_24mhz_854606540)

text \<open>
  Claim C2: with the 24 MHz reference, the target 1000000000 and the ceiling
  1000000000, the search reaches error 0 and \<^verbatim>\<open>round_rate\<close> returns exactly
  1000000000 with multiplier 125 and divider 3; the returned rate does not
  exceed the requested one.
\<close>

theorem round_rate_24mhz_1ghz_exact:
  "search osc_24mhz (p\<lparr>max_rate := 1000000000\<rparr>) 1000000000
     = \<lparr>err_min = 0, ret = 1000000000, mult = 125, div_c = 3\<rparr>
   \<and> clk_ti_am3_dpll_round_rate osc_24mhz (p\<lparr>max_rate := 1000000000\<rparr>) 1000000000 s
     = (1000000000, p\<lparr>max_rate := 1000000000, last_rounded_mult := 125, last_rounded_div := 3\<rparr>, s)
   \<and> (24000000 * 125) div 3 = (1000000000 :: int)
   \<and> fst (clk_ti_am3_dpll_round_rate osc_24mhz (p\<lparr>max_rate := 1000000000\<rparr>) 1000000000 s)
       \<le> 1000000000"
  by (simp add: round_rate_unfold search_def effective_rate_def osc_24mhz_def scan_24mhz_1ghz)

text \<open>
  Claim C3 (outside bypass, \<^verbatim>\<open>get_rate\<close> returns
  \<open>floor(referenceRate * m / (n + 1))\<close>, the product computed in 64 bits) does
  not hold of the code: the product is computed in 32 bits and widened
  afterwards. With the DPLL locked, M = 1000 and N = 23 in the select register
  and the 24 MHz reference, \<^verbatim>\<open>get_rate\<close> returns 105215146, not 1000000000.
\<close>

theorem get_rate_product_wraps:
  "fst (clk_ti_am3_dpll_get_rate am33xx_clock_h osc_24mhz mpu_priv locked_1ghz) = Inr 105215146
   \<and> en_field am33xx_clock_h (regs locked_1ghz (clkmode_reg mpu_priv)) = DPLL_EN_LOCK am33xx_clock_h
   \<and> drop_bit (CM_CLKSEL_DPLL_M_SHIFT am33xx_clock_h)
        (regs locked_1ghz (clksel_reg mpu_priv) AND CM_CLKSEL_DPLL_M_MASK am33xx_clock_h) = 1000
   \<and> drop_bit (CM_CLKSEL_DPLL_N_SHIFT am33xx_clock_h)
        (regs locked_1ghz (clksel_reg mpu_priv) AND CM_CLKSEL_DPLL_N_MASK am33xx_clock_h) = 23
   \<and> (24000000 * 1000) div (23 + 1) = (1000000000 :: int)
   \<and> (24000000 * 1000 :: ulong) = 2525163520"
  by (simp add: clk_ti_am3_dpll_get_rate_def readl_def am33xx_clock_h_def osc_24mhz_def
      mpu_priv_def locked_1ghz_def do_div_def en_field_def Let_def)

text \<open>
  Claim C4: if \<^verbatim>\<open>max_rate\<close> is not 0 and the target exceeds it, the whole
  search runs with \<^verbatim>\<open>max_rate\<close> as its target: rate and recorded pair are
  those of a call with the target \<^verbatim>\<open>max_rate\<close>, and the only other effect is
  the warning. If \<^verbatim>\<open>max_rate\<close> is 0 or the target does not exceed it, the
  search runs with the target unchanged.
\<close>

theorem round_rate_clamps_to_max_rate:
  "(max_rate p \<noteq> 0 \<and> max_rate p < rate \<longrightarrow>
      effective_rate p rate = max_rate p \<and>
      search g p rate = search g p (max_rate p) \<and>
      fst (clk_ti_am3_dpll_round_rate g p rate s)
        = fst (clk_ti_am3_dpll_round_rate g p (max_rate p) s) \<and>
      fst (snd (clk_ti_am3_dpll_round_rate g p rate s))
        = fst (snd (clk_ti_am3_dpll_round_rate g p (max_rate p) s)) \<and>
      snd (snd (clk_ti_am3_dpll_round_rate g p rate s))
        = dev_warn (Warn_rate_too_high rate (max_rate p))
            (snd (snd (clk_ti_am3_dpll_round_rate g p (max_rate p) s))))
   \<and> (max_rate p = 0 \<or> rate \<le> max_rate p \<longrightarrow>
      effective_rate p rate = rate \<and>
      clk_ti_am3_dpll_round_rate g p rate s =
        (let f = d_loop (g (clk_ref p)) rate 1 (scan_init rate)
         in (ret f, p\<lparr>last_rounded_mult := word_of_int (mult f),
                      last_rounded_div := word_of_int (div_c f)\<rparr>, s)))"
  by (auto simp: round_rate_unfold search_def effective_rate_def Let_def)

theorem round_rate_clamps_to_max_rate_witness:
  "max_rate mpu_priv \<noteq> 0 \<and> max_rate mpu_priv < 1500000000
   \<and> effective_rate mpu_priv 1500000000 = 1000000000
   \<and> fst (clk_ti_am3_dpll_round_rate osc_24mhz mpu_priv 1500000000 idle_machine) = 1000000000
   \<and> (500000000 :: ulong) \<le> max_rate mpu_priv
   \<and> effective_rate mpu_priv 500000000 = 500000000"
  using round_rate_clamps_to_max_rate[of mpu_priv 1500000000 osc_24mhz idle_machine]
        round_rate_clamps_to_max_rate[of mpu_priv 500000000 osc_24mhz idle_machine]
        round_rate_1ghz[of mpu_priv idle_machine]
  by (simp add: mpu_priv_def)

text \<open>
  Claim C5: if the search inside \<^verbatim>\<open>set_rate\<close> returns the "no solution"
  value \<^verbatim>\<open>-EFAULT\<close> (or any other error value), \<^verbatim>\<open>set_rate\<close> returns that value
  at once; no register is read, written or modified.
\<close>

theorem set_rate_no_solution_no_io:
  assumes "clk_ti_am3_dpll_round_rate g p rate s = (r, p', s1)" and "IS_ERR_VALUE r"
  shows "IS_ERR_VALUE (- EFAULT) \<and>
         clk_ti_am3_dpll_set_rate H g hw p rate s = (Returned r, p', s1) \<and>
         regs s1 = regs s \<and> bus s1 = bus s"
  using assms round_rate_machine[OF assms(1)] set_rate_error_path[OF assms]
  by (simp add: IS_ERR_VALUE_EFAULT)

theorem set_rate_no_solution_no_io_witness:
  "clk_ti_am3_dpll_round_rate osc_24mhz mpu_priv 1000 idle_machine
     = (- EFAULT, mpu_priv\<lparr>last_rounded_mult := 0xFFFF, last_rounded_div := 0xFF\<rparr>, idle_machine)
   \<and> IS_ERR_VALUE (- EFAULT)
   \<and> clk_ti_am3_dpll_set_rate am33xx_clock_h osc_24mhz lock_timeout mpu_priv 1000 idle_machine
     = (Returned (- EFAULT), mpu_priv\<lparr>last_rounded_mult := 0xFFFF, last_rounded_div := 0xFF\<rparr>,
        idle_machine)
   \<and> bus idle_machine = []"
  using set_rate_no_solution_no_io[OF mpu_round_rate_1khz IS_ERR_VALUE_EFAULT,
      of am33xx_clock_h lock_timeout]
    mpu_round_rate_1khz
  by (simp add: idle_machine_def)




text \<open>
  Claim C7: a timeout of the bypass poll is not fatal. The run still performs
  the whole programming sequence (write of the select register, request of
  lock mode, lock poll), prints "failed bypassing dpll", and has the same
  outcome, driver data, registers and bus accesses as the run in which the
  bypass poll succeeds; if the lock poll succeeds it returns the rate of the
  search.
\<close>

theorem set_rate_bypass_timeout_continues:
  assumes "clk_ti_am3_dpll_round_rate g p rate s = (r, p', s1)"
      and "\<not> IS_ERR_VALUE r" and "\<not> bypass_seen hw"
  shows "let run = clk_ti_am3_dpll_set_rate H g hw p rate s;
             run' = clk_ti_am3_dpll_set_rate H g (hw\<lparr>bypass_seen := True\<rparr>) p rate s
         in bus (snd (snd run))
              = bus s @ programming_sequence H p (set_M_N H (regs s (clksel_reg p)) p')
          \<and> Err_failed_bypassing \<in> set (console (snd (snd run)))
          \<and> (lock_seen hw \<longrightarrow> fst run = Returned r)
          \<and> fst run = fst run' \<and> fst (snd run) = fst (snd run')
          \<and> regs (snd (snd run)) = regs (snd (snd run'))
          \<and> bus (snd (snd run)) = bus (snd (snd run'))"
  using set_rate_program_path(1-4)[OF assms(1,2), of H hw]
    set_rate_program_path(1-4)[OF assms(1,2), of H "hw\<lparr>bypass_seen := True\<rparr>"]
    set_rate_program_path(5)[OF assms(1,2), of H hw "hw\<lparr>bypass_seen := True\<rparr>"] assms(3)
  by (simp add: Let_def)

theorem set_rate_bypass_timeout_continues_witness:
  "clk_ti_am3_dpll_round_rate osc_24mhz mpu_priv 1000000000 idle_machine
     = (1000000000, mpu_priv\<lparr>last_rounded_mult := 125, last_rounded_div := 3\<rparr>, idle_machine)
   \<and> \<not> IS_ERR_VALUE 1000000000 \<and> \<not> bypass_seen bypass_timeout \<and> lock_seen bypass_timeout
   \<and> fst (clk_ti_am3_dpll_set_rate am33xx_clock_h osc_24mhz bypass_timeout mpu_priv 1000000000
            idle_machine) = Returned 1000000000
   \<and> fst (clk_ti_am3_dpll_set_rate am33xx_clock_h osc_24mhz
            (bypass_timeout\<lparr>bypass_seen := True\<rparr>) mpu_priv 1000000000 idle_machine)
       = Returned 1000000000"
proof -
  have nb: "\<not> bypass_seen bypass_timeout" and l: "lock_seen bypass_timeout"
    by (simp_all add: bypass_timeout_def)
  show ?thesis
    using set_rate_bypass_timeout_continues[OF mpu_round_rate_1ghz not_err_1ghz nb,
        of am33xx_clock_h]
      mpu_round_rate_1ghz not_err_1ghz nb l
    unfolding Let_def by metis
qed

text \<open>
  Claim C8: the value that \<^verbatim>\<open>set_rate\<close> writes to the select register
  differs from the value read from it before only in the multiplier and divider
  fields. The multiplier field holds \<^verbatim>\<open>last_rounded_mult\<close>, the divider
  field holds \<^verbatim>\<open>last_rounded_div - 1\<close>, and every bit outside the two masks
  is as it was read.
\<close>

theorem set_rate_clksel_fields_only:
  assumes "clksel_fields H"
      and "clk_ti_am3_dpll_round_rate g p rate s = (r, p', s1)" and "\<not> IS_ERR_VALUE r"
  shows "let v = regs s (clksel_reg p); w = set_M_N H v p';
             M = CM_CLKSEL_DPLL_M_MASK H; N = CM_CLKSEL_DPLL_N_MASK H
         in bus (snd (snd (clk_ti_am3_dpll_set_rate H g hw p rate s)))
              = bus s @ programming_sequence H p w
          \<and> w AND NOT (M OR N) = v AND NOT (M OR N)
          \<and> drop_bit (CM_CLKSEL_DPLL_M_SHIFT H) (w AND M) = ucast (last_rounded_mult p')
          \<and> drop_bit (CM_CLKSEL_DPLL_N_SHIFT H) (w AND N) = ucast (last_rounded_div p') - 1
          \<and> fst (snd (clk_ti_am3_dpll_set_rate H g hw p rate s)) = p'"
proof -
  let ?f = "search g p rate"
  have ch: "chosen (g (clk_ref p)) (effective_rate p rate) ?f"
    using not_err_chosen[OF assms(2,3)] .
  have p': "last_rounded_mult p' = word_of_int (mult ?f)"
    "last_rounded_div p' = word_of_int (div_c ?f)"
    using assms(2) by (auto simp: round_rate_unfold)
  have m: "(ucast (last_rounded_mult p') :: u32) < 2 ^ 11"
    and d: "(ucast (last_rounded_div p') :: u32) - 1 < 2 ^ 7"
    using chosen_fields(3,4)[OF ch] by (simp_all add: p')
  show ?thesis
    using set_rate_program_path(2,3)[OF assms(2,3), of H hw]
      set_M_N_frame[of H "regs s (clksel_reg p)" p']
      set_M_N_mult[OF assms(1) m, of "regs s (clksel_reg p)"]
      set_M_N_div[OF assms(1) d, of "regs s (clksel_reg p)"]
    by (simp add: Let_def)
qed

theorem set_rate_clksel_fields_only_witness:
  "clksel_fields am33xx_clock_h
   \<and> clk_ti_am3_dpll_round_rate osc_24mhz mpu_priv 1000000000 locked_1ghz
       = (1000000000, mpu_priv\<lparr>last_rounded_mult := 125, last_rounded_div := 3\<rparr>, locked_1ghz)
   \<and> \<not> IS_ERR_VALUE 1000000000
   \<and> regs locked_1ghz (clksel_reg mpu_priv) = 0x3E817
   \<and> set_M_N am33xx_clock_h 0x3E817 (mpu_priv\<lparr>last_rounded_mult := 125, last_rounded_div := 3\<rparr>)
       = 0x7D02
   \<and> bus (snd (snd (clk_ti_am3_dpll_set_rate am33xx_clock_h osc_24mhz bypass_timeout mpu_priv
                      1000000000 locked_1ghz)))
       = programming_sequence am33xx_clock_h mpu_priv 0x7D02"
proof -
  have rr: "clk_ti_am3_dpll_round_rate osc_24mhz mpu_priv 1000000000 locked_1ghz
       = (1000000000, mpu_priv\<lparr>last_rounded_mult := 125, last_rounded_div := 3\<rparr>, locked_1ghz)"
    using round_rate_1ghz[of mpu_priv locked_1ghz] by (simp add: mpu_priv_max)
  have v: "regs locked_1ghz (clksel_reg mpu_priv) = 0x3E817"
    by (simp add: locked_1ghz_def mpu_priv_def)
  have w: "set_M_N am33xx_clock_h 0x3E817 (mpu_priv\<lparr>last_rounded_mult := 125, last_rounded_div := 3\<rparr>)
       = 0x7D02"
    by (simp add: set_M_N_def am33xx_clock_h_def Let_def)
  have b: "bus locked_1ghz = []"
    by (simp add: locked_1ghz_def)
  show ?thesis
    using set_rate_clksel_fields_only[OF am33xx_fields rr not_err_1ghz, of bypass_timeout]
      am33xx_fields rr not_err_1ghz v w b
    by (simp add: Let_def)
qed

text \<open>
  Claim C9: every call of \<^verbatim>\<open>round_rate\<close> overwrites \<^verbatim>\<open>last_rounded_mult\<close> and
  \<^verbatim>\<open>last_rounded_div\<close> with the pair the scan ends with, whatever they held
  before. When the scan records no candidate the call returns \<^verbatim>\<open>-EFAULT\<close> and
  the two fields hold the truncated \<^verbatim>\<open>INT_MAX\<close>, 0xFFFF and 0xFF, outside
  2..2047 and 1..128; otherwise they hold a pair inside these ranges. For a
  target below \<open>2^31 - 14\<close> the return value \<^verbatim>\<open>-EFAULT\<close> occurs only when no
  candidate was recorded.
\<close>

theorem round_rate_overwrites_last_rounded:
  assumes "clk_ti_am3_dpll_round_rate g p rate s = (r, p', s1)"
  shows "let f = search g p rate; target = effective_rate p rate
         in r = ret f
          \<and> p' = p\<lparr>last_rounded_mult := word_of_int (mult f),
                    last_rounded_div := word_of_int (div_c f)\<rparr>
          \<and> (f = scan_init target \<longrightarrow>
                r = - EFAULT \<and> last_rounded_mult p' = 0xFFFF \<and> last_rounded_div p' = 0xFF \<and>
                \<not> unat (last_rounded_mult p') \<le> 2047 \<and> \<not> unat (last_rounded_div p') \<le> 128)
          \<and> (f \<noteq> scan_init target \<longrightarrow>
                uint (last_rounded_mult p') = mult f \<and> 2 \<le> mult f \<and> mult f \<le> 2047 \<and>
                uint (last_rounded_div p') = div_c f \<and> 1 \<le> div_c f \<and> div_c f \<le> 128)
          \<and> (0 \<le>s target \<and> target <s 2147483634 \<longrightarrow>
                (r = - EFAULT \<longleftrightarrow> f = scan_init target))"
proof -
  let ?f = "search g p rate" and ?t = "effective_rate p rate"
  have r: "r = ret ?f"
    and p': "p' = p\<lparr>last_rounded_mult := word_of_int (mult ?f),
                    last_rounded_div := word_of_int (div_c ?f)\<rparr>"
    using assms by (simp_all add: round_rate_unfold)
  have init: "?f = scan_init ?t \<Longrightarrow>
      r = - EFAULT \<and> last_rounded_mult p' = 0xFFFF \<and> last_rounded_div p' = 0xFF \<and>
      \<not> unat (last_rounded_mult p') \<le> 2047 \<and> \<not> unat (last_rounded_div p') \<le> 128"
    by (simp add: r p' scan_init_def INT_MAX_def)
  have found: "?f \<noteq> scan_init ?t \<Longrightarrow>
      uint (last_rounded_mult p') = mult ?f \<and> 2 \<le> mult ?f \<and> mult ?f \<le> 2047 \<and>
      uint (last_rounded_div p') = div_c ?f \<and> 1 \<le> div_c ?f \<and> div_c ?f \<le> 128"
  proof -
    assume "?f \<noteq> scan_init ?t"
    then have ch: "chosen (g (clk_ref p)) ?t ?f"
      using search_cases[of g p rate] by simp
    then show ?thesis
      using chosen_fields(1,2)[OF ch] by (simp add: p' chosen_def)
  qed
  have sentinel: "0 \<le>s ?t \<and> ?t <s 2147483634 \<Longrightarrow> (r = - EFAULT \<longleftrightarrow> ?f = scan_init ?t)"
  proof
    assume b: "0 \<le>s ?t \<and> ?t <s 2147483634" and e: "r = - EFAULT"
    show "?f = scan_init ?t"
    proof (rule ccontr)
      assume "?f \<noteq> scan_init ?t"
      then have "chosen (g (clk_ref p)) ?t ?f"
        using search_cases[of g p rate] by simp
      then show False using efault_not_chosen b e r by metis
    qed
  next
    assume "?f = scan_init ?t"
    then show "r = - EFAULT" using init by simp
  qed
  show ?thesis
    unfolding Let_def using r p' init found sentinel by blast
qed

theorem round_rate_overwrites_last_rounded_witness:
  "clk_ti_am3_dpll_round_rate osc_24mhz mpu_priv 1000 idle_machine
     = (- EFAULT, mpu_priv\<lparr>last_rounded_mult := 0xFFFF, last_rounded_div := 0xFF\<rparr>, idle_machine)
   \<and> search osc_24mhz mpu_priv 1000 = scan_init (effective_rate mpu_priv 1000)
   \<and> clk_ti_am3_dpll_round_rate osc_24mhz mpu_priv 1000000000 idle_machine
     = (1000000000, mpu_priv\<lparr>last_rounded_mult := 125, last_rounded_div := 3\<rparr>, idle_machine)
   \<and> search osc_24mhz mpu_priv 1000000000 \<noteq> scan_init (effective_rate mpu_priv 1000000000)
   \<and> 0 \<le>s effective_rate mpu_priv 1000 \<and> effective_rate mpu_priv 1000 <s 2147483634"
proof -
  have e: "effective_rate mpu_priv 1000 = 1000" "effective_rate mpu_priv 1000000000 = 1000000000"
    by (simp_all add: effective_rate_def mpu_priv_def)
  have s1: "search osc_24mhz mpu_priv 1000 = scan_init 1000"
    by (simp add: search_def e osc_24mhz_def scan_24mhz_1khz)
  have s2: "search osc_24mhz mpu_priv 1000000000 \<noteq> scan_init 1000000000"
    by (simp add: search_def e osc_24mhz_def scan_24mhz_1ghz) (simp add: scan_init_def)
  have b: "(0 :: cint) \<le>s 1000 \<and> (1000 :: cint) <s 2147483634"
    by (simp add: word_sle_eq word_sless_alt)
  show ?thesis
    using round_rate_overwrites_last_rounded[OF mpu_round_rate_1khz]
      round_rate_overwrites_last_rounded[OF mpu_round_rate_1ghz]
      mpu_round_rate_1khz mpu_round_rate_1ghz s1 s2 b
    by (simp add: e)
qed

text \<open>
  Claim C10: outside bypass \<^verbatim>\<open>get_rate\<close> divides by \<open>n + 1\<close> for the divider
  field \<open>n\<close> of the select register. Unless the divider mask covers the whole
  register, \<open>n + 1\<close> is at least 1 for every value of the register, so
  \<^verbatim>\<open>do_div\<close> never divides by zero.
\<close>

theorem get_rate_divisor_nonzero:
  assumes "\<not> (CM_CLKSEL_DPLL_N_MASK H = - 1 \<and> CM_CLKSEL_DPLL_N_SHIFT H = 0)"
  shows "let n = drop_bit (CM_CLKSEL_DPLL_N_SHIFT H) (v AND CM_CLKSEL_DPLL_N_MASK H)
         in n + 1 \<noteq> 0 \<and> 1 \<le> n + 1 \<and> do_div x (n + 1) = Inr (x div ucast (n + 1))
          \<and> fst (clk_ti_am3_dpll_get_rate H g p s) \<noteq> Inl Division_by_zero"
proof -
  have nz: "\<And>v. drop_bit (CM_CLKSEL_DPLL_N_SHIFT H) (v AND CM_CLKSEL_DPLL_N_MASK H) + 1 \<noteq> 0"
    using n_plus_one[of "CM_CLKSEL_DPLL_N_MASK H" "CM_CLKSEL_DPLL_N_SHIFT H"] assms by blast
  have "fst (clk_ti_am3_dpll_get_rate H g p s) \<noteq> Inl Division_by_zero"
    using nz by (simp add: clk_ti_am3_dpll_get_rate_def readl_def do_div_def Let_def)
  then show ?thesis
    using nz[of v] one_le by (simp add: Let_def do_div_def)
qed

theorem get_rate_divisor_nonzero_witness:
  "\<not> (CM_CLKSEL_DPLL_N_MASK am33xx_clock_h = - 1 \<and> CM_CLKSEL_DPLL_N_SHIFT am33xx_clock_h = 0)
   \<and> drop_bit (CM_CLKSEL_DPLL_N_SHIFT am33xx_clock_h)
        (0xFFFFFFFF AND CM_CLKSEL_DPLL_N_MASK am33xx_clock_h) + 1 = (128 :: u32)
   \<and> fst (clk_ti_am3_dpll_get_rate am33xx_clock_h osc_24mhz mpu_priv locked_1ghz)
       \<noteq> Inl Division_by_zero"
proof -
  have h: "\<not> (CM_CLKSEL_DPLL_N_MASK am33xx_clock_h = - 1 \<and> CM_CLKSEL_DPLL_N_SHIFT am33xx_clock_h = 0)"
    by (simp add: am33xx_clock_h_def)
  show ?thesis
    using get_rate_divisor_nonzero[OF h, of "0xFFFFFFFF" 0 osc_24mhz mpu_priv locked_1ghz] h
    by (simp add: Let_def am33xx_clock_h_def)
qed

end
